theory Spec2Isabelle
  imports Main "HOL-Library.Word"
begin

unbundle bit_operations_syntax

section \<open>Bytes and their containers\<close>

text \<open>
  The bytes of a buffer are a list; JavaScript strings are modelled by \<open>string\<close>.
\<close>

type_synonym byte = "8 word"
type_synonym bytes = "byte list"

text \<open>
  \<open>buf.slice(start, end)\<close> as Node defines it: a negative index counts from the end, and
  every index is clamped to the buffer. \<open>buffer_slice_from\<close> is \<open>buf.slice(start)\<close>.
\<close>

definition clamp_index :: "nat \<Rightarrow> int \<Rightarrow> nat" where
  "clamp_index n i = (if i < 0 then nat (max 0 (int n + i)) else min n (nat i))"

definition buffer_slice :: "'a list \<Rightarrow> int \<Rightarrow> int \<Rightarrow> 'a list" where
  "buffer_slice xs s e =
     (let a = clamp_index (length xs) s; b = clamp_index (length xs) e
      in take (b - a) (drop a xs))"

definition buffer_slice_from :: "'a list \<Rightarrow> int \<Rightarrow> 'a list" where
  "buffer_slice_from xs s = drop (clamp_index (length xs) s) xs"

text \<open>
  The program holds bytes in two kinds of container: a Node \<open>Buffer\<close> (a view:
  \<open>Buffer.from\<close>, \<open>Buffer.alloc\<close>, the result of \<open>digest()\<close>, every slice of a
  \<open>Buffer\<close>) and a plain \<open>ArrayBuffer\<close> (the result of \<open>crypto.hkdfSync\<close>, and every
  slice of an \<open>ArrayBuffer\<close>). Both have \<open>slice\<close> with the same index rules, and a
  slice is of the kind of what it is cut from. The library tells them apart:
  \<open>isArrayBufferView\<close> is what \<open>ArrayBuffer.isView\<close> answers.
\<close>

datatype js_bytes = Buffer bytes | ArrayBuffer bytes

fun bytes_of :: "js_bytes \<Rightarrow> bytes" where
  "bytes_of (Buffer b) = b"
| "bytes_of (ArrayBuffer b) = b"

fun isArrayBufferView :: "js_bytes \<Rightarrow> bool" where
  "isArrayBufferView (Buffer b) = True"
| "isArrayBufferView (ArrayBuffer b) = False"

fun js_slice :: "js_bytes \<Rightarrow> int \<Rightarrow> int \<Rightarrow> js_bytes" where
  "js_slice (Buffer b) s e = Buffer (buffer_slice b s e)"
| "js_slice (ArrayBuffer b) s e = ArrayBuffer (buffer_slice b s e)"

fun js_slice_from :: "js_bytes \<Rightarrow> int \<Rightarrow> js_bytes" where
  "js_slice_from (Buffer b) s = Buffer (buffer_slice_from b s)"
| "js_slice_from (ArrayBuffer b) s = ArrayBuffer (buffer_slice_from b s)"

section \<open>Base64, as \<open>Buffer.from(s, 'base64')\<close> and \<open>digest('base64')\<close> do it\<close>

definition b64_alphabet :: string where
  "b64_alphabet = ''ABCDEFGHIJKLMNOPQRSTUVWXYZabcdefghijklmnopqrstuvwxyz0123456789+/''"

text \<open>
  The value of a character in the decoder's table: the standard alphabet and the URL-safe
  \<open>-\<close> and \<open>_\<close>; every other character has no value.
\<close>

definition unbase64 :: "char \<Rightarrow> byte option" where
  "unbase64 c =
     (let n = (of_char c :: nat) in
      if 65 \<le> n \<and> n \<le> 90 then Some (of_nat (n - 65))
      else if 97 \<le> n \<and> n \<le> 122 then Some (of_nat (n - 71))
      else if 48 \<le> n \<and> n \<le> 57 then Some (of_nat (n + 4))
      else if c = CHR ''+'' \<or> c = CHR ''-'' then Some 62
      else if c = CHR ''/'' \<or> c = CHR ''_'' then Some 63
      else None)"

text \<open>
  Four six-bit values give three bytes; a last group of three gives two bytes, of two
  gives one byte, and a single left-over value gives nothing.
\<close>

fun decode_sextets :: "byte list \<Rightarrow> bytes" where
  "decode_sextets (a # b # c # d # rest) =
     (push_bit 2 (a AND 0x3F) OR drop_bit 4 (b AND 0x30))
     # (push_bit 4 (b AND 0x0F) OR drop_bit 2 (c AND 0x3C))
     # (push_bit 6 (c AND 0x03) OR (d AND 0x3F))
     # decode_sextets rest"
| "decode_sextets [a, b, c] =
     [push_bit 2 (a AND 0x3F) OR drop_bit 4 (b AND 0x30),
      push_bit 4 (b AND 0x0F) OR drop_bit 2 (c AND 0x3C)]"
| "decode_sextets [a, b] = [push_bit 2 (a AND 0x3F) OR drop_bit 4 (b AND 0x30)]"
| "decode_sextets [a] = []"
| "decode_sextets [] = []"

text \<open>
  \<open>Buffer.from(s, 'base64')\<close>: the decoder is lenient. It never throws on a string; it
  skips every character that has no value in the table, and it stops at the first
  \<open>=\<close>.
\<close>

definition base64_decode :: "string \<Rightarrow> bytes" where
  "base64_decode s = decode_sextets (List.map_filter unbase64 (takeWhile (\<lambda>c. c \<noteq> CHR ''='') s))"

definition b64_char :: "byte \<Rightarrow> char" where
  "b64_char v = b64_alphabet ! unat v"

text \<open>\<open>buf.toString('base64')\<close> and \<open>hash.digest('base64')\<close>: the padded encoding.\<close>

fun base64_encode :: "bytes \<Rightarrow> string" where
  "base64_encode (a # b # c # rest) =
     b64_char (drop_bit 2 a)
     # b64_char (push_bit 4 (a AND 0x03) OR drop_bit 4 b)
     # b64_char (push_bit 2 (b AND 0x0F) OR drop_bit 6 c)
     # b64_char (c AND 0x3F)
     # base64_encode rest"
| "base64_encode [a, b] =
     [b64_char (drop_bit 2 a),
      b64_char (push_bit 4 (a AND 0x03) OR drop_bit 4 b),
      b64_char (push_bit 2 (b AND 0x0F)),
      CHR ''='']"
| "base64_encode [a] =
     [b64_char (drop_bit 2 a), b64_char (push_bit 4 (a AND 0x03)), CHR ''='', CHR ''='']"
| "base64_encode [] = []"

section \<open>The validators\<close>

text \<open>\<open>validateEncryptedData\<close>: at least the 10 bytes of the MAC, and whole blocks before it.\<close>

definition validateEncryptedData :: "bytes \<Rightarrow> bool" where
  "validateEncryptedData encryptedData =
     (if length encryptedData < 10 then False
      else let mediaSize = length encryptedData - 10
           in if mediaSize mod 16 \<noteq> 0 then False else True)"

text \<open>
  \<open>validateMediaKey\<close>: the decoded key has 32 bytes. The \<open>catch\<close> branch of the source
  is dead for a string argument, since the decoder does not throw.
\<close>

definition validateMediaKey :: "string \<Rightarrow> bool" where
  "validateMediaKey mediaKey = (let keyBuffer = base64_decode mediaKey in length keyBuffer = 32)"

section \<open>Magic bytes\<close>

definition ascii :: "string \<Rightarrow> bytes" where
  "ascii s = map (\<lambda>c. of_nat (of_char c)) s"

definition detectMimeType :: "bytes \<Rightarrow> string" where
  "detectMimeType data =
     (let magicBytes = buffer_slice data 0 12 in
      if buffer_slice magicBytes 0 4 = [0xFF, 0xD8, 0xFF, 0xE0] \<or>
         buffer_slice magicBytes 0 4 = [0xFF, 0xD8, 0xFF, 0xE1] then ''image/jpeg''
      else if buffer_slice magicBytes 0 8 = [0x89, 0x50, 0x4E, 0x47, 0x0D, 0x0A, 0x1A, 0x0A]
        then ''image/png''
      else if buffer_slice magicBytes 0 4 = ascii ''OggS'' then ''audio/ogg''
      else if buffer_slice magicBytes 0 4 = ascii ''fLaC'' then ''audio/flac''
      else if buffer_slice magicBytes 0 4 = [0x00, 0x00, 0x00, 0x18] \<or>
              buffer_slice magicBytes 0 4 = [0x00, 0x00, 0x00, 0x20] then ''video/mp4''
      else if buffer_slice magicBytes 0 3 = ascii ''ID3'' \<or>
              buffer_slice magicBytes 0 2 = [0xFF, 0xFB] then ''audio/mpeg''
      else ''application/octet-stream'')"

section \<open>SHA-256, HMAC and HKDF, as Node's \<open>crypto\<close> module computes them\<close>

text \<open>
  The functions of \<open>crypto\<close> belong to the runtime, not to the repository. What they
  compute is written out here on byte lists, after FIPS 180-4, RFC 2104 and RFC 5869, so
  that every function of the repository below is a closed, executable term; what they
  accept and throw is modelled with the program's calls further down.
\<close>

type_synonym word32 = "32 word"

definition be32 :: "bytes \<Rightarrow> word32" where
  "be32 bs = foldl (\<lambda>acc b. push_bit 8 acc OR ucast b) 0 bs"

definition be32_bytes :: "word32 \<Rightarrow> bytes" where
  "be32_bytes w = [ucast (drop_bit 24 w), ucast (drop_bit 16 w), ucast (drop_bit 8 w), ucast w]"

definition be64_bytes :: "64 word \<Rightarrow> bytes" where
  "be64_bytes w =
     [ucast (drop_bit 56 w), ucast (drop_bit 48 w), ucast (drop_bit 40 w), ucast (drop_bit 32 w),
      ucast (drop_bit 24 w), ucast (drop_bit 16 w), ucast (drop_bit 8 w), ucast w]"

function chunks :: "nat \<Rightarrow> 'a list \<Rightarrow> 'a list list" where
  "chunks n xs = (if n = 0 \<or> xs = [] then [] else take n xs # chunks n (drop n xs))"
  by pat_completeness auto
termination
  by (relation "measure (\<lambda>(n, xs). length xs)") auto

declare chunks.simps [simp del]

definition sha256_K :: "word32 list" where
  "sha256_K =
     [0x428a2f98, 0x71374491, 0xb5c0fbcf, 0xe9b5dba5]
     @ [0x3956c25b, 0x59f111f1, 0x923f82a4, 0xab1c5ed5]
     @ [0xd807aa98, 0x12835b01, 0x243185be, 0x550c7dc3]
     @ [0x72be5d74, 0x80deb1fe, 0x9bdc06a7, 0xc19bf174]
     @ [0xe49b69c1, 0xefbe4786, 0x0fc19dc6, 0x240ca1cc]
     @ [0x2de92c6f, 0x4a7484aa, 0x5cb0a9dc, 0x76f988da]
     @ [0x983e5152, 0xa831c66d, 0xb00327c8, 0xbf597fc7]
     @ [0xc6e00bf3, 0xd5a79147, 0x06ca6351, 0x14292967]
     @ [0x27b70a85, 0x2e1b2138, 0x4d2c6dfc, 0x53380d13]
     @ [0x650a7354, 0x766a0abb, 0x81c2c92e, 0x92722c85]
     @ [0xa2bfe8a1, 0xa81a664b, 0xc24b8b70, 0xc76c51a3]
     @ [0xd192e819, 0xd6990624, 0xf40e3585, 0x106aa070]
     @ [0x19a4c116, 0x1e376c08, 0x2748774c, 0x34b0bcb5]
     @ [0x391c0cb3, 0x4ed8aa4a, 0x5b9cca4f, 0x682e6ff3]
     @ [0x748f82ee, 0x78a5636f, 0x84c87814, 0x8cc70208]
     @ [0x90befffa, 0xa4506ceb, 0xbef9a3f7, 0xc67178f2]"

record sha256_state =
  ha :: word32
  hb :: word32
  hc :: word32
  hd' :: word32
  he :: word32
  hf :: word32
  hg :: word32
  hh :: word32

definition sha256_init :: sha256_state where
  "sha256_init =
     \<lparr>ha = 0x6a09e667, hb = 0xbb67ae85, hc = 0x3c6ef372, hd' = 0xa54ff53a,
      he = 0x510e527f, hf = 0x9b05688c, hg = 0x1f83d9ab, hh = 0x5be0cd19\<rparr>"

definition sha256_pad :: "bytes \<Rightarrow> bytes" where
  "sha256_pad m =
     m @ [0x80] @ replicate ((119 - length m mod 64) mod 64) 0 @ be64_bytes (of_nat (8 * length m))"

definition small_sigma0 :: "word32 \<Rightarrow> word32" where
  "small_sigma0 x = word_rotr 7 x XOR word_rotr 18 x XOR drop_bit 3 x"

definition small_sigma1 :: "word32 \<Rightarrow> word32" where
  "small_sigma1 x = word_rotr 17 x XOR word_rotr 19 x XOR drop_bit 10 x"

definition big_sigma0 :: "word32 \<Rightarrow> word32" where
  "big_sigma0 x = word_rotr 2 x XOR word_rotr 13 x XOR word_rotr 22 x"

definition big_sigma1 :: "word32 \<Rightarrow> word32" where
  "big_sigma1 x = word_rotr 6 x XOR word_rotr 11 x XOR word_rotr 25 x"

primrec sha256_schedule :: "nat \<Rightarrow> word32 list \<Rightarrow> word32 list" where
  "sha256_schedule 0 w = w"
| "sha256_schedule (Suc n) w =
     sha256_schedule n
       (w @ [small_sigma1 (w ! (length w - 2)) + w ! (length w - 7)
             + small_sigma0 (w ! (length w - 15)) + w ! (length w - 16)])"

definition sha256_round :: "sha256_state \<Rightarrow> word32 \<times> word32 \<Rightarrow> sha256_state" where
  "sha256_round s kw =
     (let t1 = hh s + big_sigma1 (he s) + ((he s AND hf s) XOR (NOT (he s) AND hg s))
               + fst kw + snd kw;
          t2 = big_sigma0 (ha s) + ((ha s AND hb s) XOR (ha s AND hc s) XOR (hb s AND hc s))
      in \<lparr>ha = t1 + t2, hb = ha s, hc = hb s, hd' = hc s,
          he = hd' s + t1, hf = he s, hg = hf s, hh = hg s\<rparr>)"

definition sha256_compress :: "sha256_state \<Rightarrow> bytes \<Rightarrow> sha256_state" where
  "sha256_compress s block =
     (let w = sha256_schedule 48 (map be32 (chunks 4 block));
          r = foldl sha256_round s (zip sha256_K w)
      in \<lparr>ha = ha s + ha r, hb = hb s + hb r, hc = hc s + hc r, hd' = hd' s + hd' r,
          he = he s + he r, hf = hf s + hf r, hg = hg s + hg r, hh = hh s + hh r\<rparr>)"

definition sha256 :: "bytes \<Rightarrow> bytes" where
  "sha256 m =
     (let s = foldl sha256_compress sha256_init (chunks 64 (sha256_pad m))
      in be32_bytes (ha s) @ be32_bytes (hb s) @ be32_bytes (hc s) @ be32_bytes (hd' s)
         @ be32_bytes (he s) @ be32_bytes (hf s) @ be32_bytes (hg s) @ be32_bytes (hh s))"

text \<open>HMAC-SHA256 of a message under a key (RFC 2104).\<close>

definition hmac_sha256 :: "bytes \<Rightarrow> bytes \<Rightarrow> bytes" where
  "hmac_sha256 key msg =
     (let k = (if length key > 64 then sha256 key else key);
          k0 = k @ replicate (64 - length k) 0
      in sha256 (map (\<lambda>b. b XOR 0x5c) k0 @ sha256 (map (\<lambda>b. b XOR 0x36) k0 @ msg)))"

primrec hkdf_expand :: "bytes \<Rightarrow> bytes \<Rightarrow> nat \<Rightarrow> bytes \<Rightarrow> nat \<Rightarrow> bytes" where
  "hkdf_expand prk info i prev 0 = []"
| "hkdf_expand prk info i prev (Suc n) =
     (let t = hmac_sha256 prk (prev @ info @ [of_nat i])
      in t @ hkdf_expand prk info (Suc i) t n)"

text \<open>
  HKDF with SHA-256 (RFC 5869): extract with the salt (a string of 32 zero bytes when the
  salt is empty), then expand to \<open>keylen\<close> bytes.
\<close>

definition hkdf_sha256 :: "bytes \<Rightarrow> bytes \<Rightarrow> bytes \<Rightarrow> nat \<Rightarrow> bytes" where
  "hkdf_sha256 ikm salt info keylen =
     (let prk = hmac_sha256 (if salt = [] then replicate 32 0 else salt) ikm
      in take keylen (hkdf_expand prk info 1 [] ((keylen + 31) div 32)))"

section \<open>AES-256-CBC with PKCS#7 padding\<close>

text \<open>
  The block cipher of FIPS 197 with a 256-bit key (14 rounds). A state is the list of its
  16 bytes in the order of the input block (column after column).
\<close>

definition sbox_table :: bytes where
  "sbox_table =
     [
0x63, 0x7c, 0x77, 0x7b, 0xf2, 0x6b, 0x6f, 0xc5, 0x30, 0x01, 0x67, 0x2b, 0xfe, 0xd7, 0xab, 0x76,
      0xca, 0x82, 0xc9, 0x7d, 0xfa, 0x59, 0x47, 0xf0, 0xad, 0xd4, 0xa2, 0xaf, 0x9c, 0xa4, 0x72, 0xc0,
      0xb7, 0xfd, 0x93, 0x26, 0x36, 0x3f, 0xf7, 0xcc, 0x34, 0xa5, 0xe5, 0xf1, 0x71, 0xd8, 0x31, 0x15,
      0x04, 0xc7, 0x23, 0xc3, 0x18, 0x96, 0x05, 0x9a, 0x07, 0x12, 0x80, 0xe2, 0xeb, 0x27, 0xb2, 0x75,
      0x09, 0x83, 0x2c, 0x1a, 0x1b, 0x6e, 0x5a, 0xa0, 0x52, 0x3b, 0xd6, 0xb3, 0x29, 0xe3, 0x2f, 0x84,
      0x53, 0xd1, 0x00, 0xed, 0x20, 0xfc, 0xb1, 0x5b, 0x6a, 0xcb, 0xbe, 0x39, 0x4a, 0x4c, 0x58, 0xcf,
      0xd0, 0xef, 0xaa, 0xfb, 0x43, 0x4d, 0x33, 0x85, 0x45, 0xf9, 0x02, 0x7f, 0x50, 0x3c, 0x9f, 0xa8,
      0x51, 0xa3, 0x40, 0x8f, 0x92, 0x9d, 0x38, 0xf5, 0xbc, 0xb6, 0xda, 0x21, 0x10, 0xff, 0xf3, 0xd2,
      0xcd, 0x0c, 0x13, 0xec, 0x5f, 0x97, 0x44, 0x17, 0xc4, 0xa7, 0x7e, 0x3d, 0x64, 0x5d, 0x19, 0x73,
      0x60, 0x81, 0x4f, 0xdc, 0x22, 0x2a, 0x90, 0x88, 0x46, 0xee, 0xb8, 0x14, 0xde, 0x5e, 0x0b, 0xdb,
      0xe0, 0x32, 0x3a, 0x0a, 0x49, 0x06, 0x24, 0x5c, 0xc2, 0xd3, 0xac, 0x62, 0x91, 0x95, 0xe4, 0x79,
      0xe7, 0xc8, 0x37, 0x6d, 0x8d, 0xd5, 0x4e, 0xa9, 0x6c, 0x56, 0xf4, 0xea, 0x65, 0x7a, 0xae, 0x08,
      0xba, 0x78, 0x25, 0x2e, 0x1c, 0xa6, 0xb4, 0xc6, 0xe8, 0xdd, 0x74, 0x1f, 0x4b, 0xbd, 0x8b, 0x8a,
      0x70, 0x3e, 0xb5, 0x66, 0x48, 0x03, 0xf6, 0x0e, 0x61, 0x35, 0x57, 0xb9, 0x86, 0xc1, 0x1d, 0x9e,
      0xe1, 0xf8, 0x98, 0x11, 0x69, 0xd9, 0x8e, 0x94, 0x9b, 0x1e, 0x87, 0xe9, 0xce, 0x55, 0x28, 0xdf,
      0x8c, 0xa1, 0x89, 0x0d, 0xbf, 0xe6, 0x42, 0x68, 0x41, 0x99, 0x2d, 0x0f, 0xb0, 0x54, 0xbb, 0x16]"

definition inv_sbox_table :: bytes where
  "inv_sbox_table =
     [
      0x52, 0x09, 0x6a, 0xd5, 0x30, 0x36, 0xa5, 0x38, 0xbf, 0x40, 0xa3, 0x9e, 0x81, 0xf3, 0xd7, 0xfb,
      0x7c, 0xe3, 0x39, 0x82, 0x9b, 0x2f, 0xff, 0x87, 0x34, 0x8e, 0x43, 0x44, 0xc4, 0xde, 0xe9, 0xcb,
      0x54, 0x7b, 0x94, 0x32, 0xa6, 0xc2, 0x23, 0x3d, 0xee, 0x4c, 0x95, 0x0b, 0x42, 0xfa, 0xc3, 0x4e,
      0x08, 0x2e, 0xa1, 0x66, 0x28, 0xd9, 0x24, 0xb2, 0x76, 0x5b, 0xa2, 0x49, 0x6d, 0x8b, 0xd1, 0x25,
      0x72, 0xf8, 0xf6, 0x64, 0x86, 0x68, 0x98, 0x16, 0xd4, 0xa4, 0x5c, 0xcc, 0x5d, 0x65, 0xb6, 0x92,
      0x6c, 0x70, 0x48, 0x50, 0xfd, 0xed, 0xb9, 0xda, 0x5e, 0x15, 0x46, 0x57, 0xa7, 0x8d, 0x9d, 0x84,
      0x90, 0xd8, 0xab, 0x00, 0x8c, 0xbc, 0xd3, 0x0a, 0xf7, 0xe4, 0x58, 0x05, 0xb8, 0xb3, 0x45, 0x06,
      0xd0, 0x2c, 0x1e, 0x8f, 0xca, 0x3f, 0x0f, 0x02, 0xc1, 0xaf, 0xbd, 0x03, 0x01, 0x13, 0x8a, 0x6b,
      0x3a, 0x91, 0x11, 0x41, 0x4f, 0x67, 0xdc, 0xea, 0x97, 0xf2, 0xcf, 0xce, 0xf0, 0xb4, 0xe6, 0x73,
      0x96, 0xac, 0x74, 0x22, 0xe7, 0xad, 0x35, 0x85, 0xe2, 0xf9, 0x37, 0xe8, 0x1c, 0x75, 0xdf, 0x6e,
      0x47, 0xf1, 0x1a, 0x71, 0x1d, 0x29, 0xc5, 0x89, 0x6f, 0xb7, 0x62, 0x0e, 0xaa, 0x18, 0xbe, 0x1b,
      0xfc, 0x56, 0x3e, 0x4b, 0xc6, 0xd2, 0x79, 0x20, 0x9a, 0xdb, 0xc0, 0xfe, 0x78, 0xcd, 0x5a, 0xf4,
      0x1f, 0xdd, 0xa8, 0x33, 0x88, 0x07, 0xc7, 0x31, 0xb1, 0x12, 0x10, 0x59, 0x27, 0x80, 0xec, 0x5f,
      0x60, 0x51, 0x7f, 0xa9, 0x19, 0xb5, 0x4a, 0x0d, 0x2d, 0xe5, 0x7a, 0x9f, 0x93, 0xc9, 0x9c, 0xef,
      0xa0, 0xe0, 0x3b, 0x4d, 0xae, 0x2a, 0xf5, 0xb0, 0xc8, 0xeb, 0xbb, 0x3c, 0x83, 0x53, 0x99, 0x61,
      0x17, 0x2b, 0x04, 0x7e, 0xba, 0x77, 0xd6, 0x26, 0xe1, 0x69, 0x14, 0x63, 0x55, 0x21, 0x0c, 0x7d]"

definition sbox :: "byte \<Rightarrow> byte" where
  "sbox x = sbox_table ! unat x"

definition inv_sbox :: "byte \<Rightarrow> byte" where
  "inv_sbox x = inv_sbox_table ! unat x"

definition xtime :: "byte \<Rightarrow> byte" where
  "xtime a = (if bit a 7 then push_bit 1 a XOR 0x1b else push_bit 1 a)"

definition xor_bytes :: "bytes \<Rightarrow> bytes \<Rightarrow> bytes" where
  "xor_bytes a b = map2 (XOR) a b"

definition sub_bytes :: "bytes \<Rightarrow> bytes" where
  "sub_bytes s = map sbox s"

definition inv_sub_bytes :: "bytes \<Rightarrow> bytes" where
  "inv_sub_bytes s = map inv_sbox s"

definition shift_rows :: "bytes \<Rightarrow> bytes" where
  "shift_rows s = map (\<lambda>i. s ! i) [0, 5, 10, 15, 4, 9, 14, 3, 8, 13, 2, 7, 12, 1, 6, 11]"

definition inv_shift_rows :: "bytes \<Rightarrow> bytes" where
  "inv_shift_rows s = map (\<lambda>i. s ! i) [0, 13, 10, 7, 4, 1, 14, 11, 8, 5, 2, 15, 12, 9, 6, 3]"

fun mix_columns :: "bytes \<Rightarrow> bytes" where
  "mix_columns (a # b # c # d # rest) =
     (xtime a XOR (xtime b XOR b) XOR c XOR d)
     # (a XOR xtime b XOR (xtime c XOR c) XOR d)
     # (a XOR b XOR xtime c XOR (xtime d XOR d))
     # ((xtime a XOR a) XOR b XOR c XOR xtime d)
     # mix_columns rest"
| "mix_columns rest = []"

definition mul9 :: "byte \<Rightarrow> byte" where
  "mul9 a = xtime (xtime (xtime a)) XOR a"

definition mul11 :: "byte \<Rightarrow> byte" where
  "mul11 a = xtime (xtime (xtime a)) XOR xtime a XOR a"

definition mul13 :: "byte \<Rightarrow> byte" where
  "mul13 a = xtime (xtime (xtime a)) XOR xtime (xtime a) XOR a"

definition mul14 :: "byte \<Rightarrow> byte" where
  "mul14 a = xtime (xtime (xtime a)) XOR xtime (xtime a) XOR xtime a"

fun inv_mix_columns :: "bytes \<Rightarrow> bytes" where
  "inv_mix_columns (a # b # c # d # rest) =
     (mul14 a XOR mul11 b XOR mul13 c XOR mul9 d)
     # (mul9 a XOR mul14 b XOR mul11 c XOR mul13 d)
     # (mul13 a XOR mul9 b XOR mul14 c XOR mul11 d)
     # (mul11 a XOR mul13 b XOR mul9 c XOR mul14 d)
     # inv_mix_columns rest"
| "inv_mix_columns rest = []"

definition rcon :: bytes where
  "rcon = [0x01, 0x02, 0x04, 0x08, 0x10, 0x20, 0x40]"

text \<open>Key expansion for \<open>Nk = 8\<close>: word \<open>i\<close> of the schedule from the words before it.\<close>

definition key_expansion_step :: "bytes list \<Rightarrow> nat \<Rightarrow> bytes list" where
  "key_expansion_step w i =
     (let temp = w ! (i - 1);
          temp' = (if i mod 8 = 0
                   then xor_bytes (map sbox (rotate1 temp)) [rcon ! (i div 8 - 1), 0, 0, 0]
                   else if i mod 8 = 4 then map sbox temp
                   else temp)
      in w @ [xor_bytes (w ! (i - 8)) temp'])"

definition key_expansion :: "bytes \<Rightarrow> bytes list" where
  "key_expansion key = map concat (chunks 4 (foldl key_expansion_step (chunks 4 key) [8..<60]))"

definition aes_round :: "bytes \<Rightarrow> bytes \<Rightarrow> bytes" where
  "aes_round s k = xor_bytes (mix_columns (shift_rows (sub_bytes s))) k"

definition aes_inv_round :: "bytes \<Rightarrow> bytes \<Rightarrow> bytes" where
  "aes_inv_round k s = inv_sub_bytes (inv_shift_rows (inv_mix_columns (xor_bytes s k)))"

definition aes256_encrypt_block :: "bytes list \<Rightarrow> bytes \<Rightarrow> bytes" where
  "aes256_encrypt_block rks block =
     (let s = foldl aes_round (xor_bytes block (rks ! 0)) (take 13 (tl rks))
      in xor_bytes (shift_rows (sub_bytes s)) (rks ! 14))"

definition aes256_decrypt_block :: "bytes list \<Rightarrow> bytes \<Rightarrow> bytes" where
  "aes256_decrypt_block rks block =
     (let s = inv_sub_bytes (inv_shift_rows (xor_bytes block (rks ! 14)))
      in xor_bytes (foldr aes_inv_round (take 13 (tl rks)) s) (rks ! 0))"

fun cbc_decrypt_blocks :: "bytes list \<Rightarrow> bytes \<Rightarrow> bytes list \<Rightarrow> bytes" where
  "cbc_decrypt_blocks rks prev [] = []"
| "cbc_decrypt_blocks rks prev (c # cs) =
     xor_bytes (aes256_decrypt_block rks c) prev @ cbc_decrypt_blocks rks c cs"

fun cbc_encrypt_blocks :: "bytes list \<Rightarrow> bytes \<Rightarrow> bytes list \<Rightarrow> bytes" where
  "cbc_encrypt_blocks rks prev [] = []"
| "cbc_encrypt_blocks rks prev (p # ps) =
     (let c = aes256_encrypt_block rks (xor_bytes p prev)
      in c @ cbc_encrypt_blocks rks c ps)"

section \<open>The calls of the program to \<open>crypto\<close>\<close>

text \<open>
  What can be thrown inside the \<open>try\<close> block of \<open>decryptWhatsAppMedia\<close>. The first is
  the program's own \<open>new Error('Falha na verificacao de integridade (MAC invalido)')\<close>;
  the others are errors of the library: \<open>ERR_INVALID_ARG_TYPE\<close> when an argument is of a
  type the function does not take, \<open>crypto.timingSafeEqual\<close> on buffers of different
  lengths, \<open>crypto.createDecipheriv\<close> on a key or an IV of the wrong length, and
  \<open>decipher.final()\<close> on a ciphertext that is not a positive number of whole blocks or
  whose last block does not end in a PKCS#7 padding.
\<close>

datatype thrown =
    Falha_MAC_invalido
  | ERR_INVALID_ARG_TYPE
  | ERR_CRYPTO_TIMING_SAFE_EQUAL_LENGTH
  | ERR_CRYPTO_INVALID_KEYLEN
  | ERR_CRYPTO_INVALID_IV
  | Wrong_final_block_length
  | Bad_decrypt

text \<open>
  The \<open>catch\<close> block rethrows every error as
  \<open>new Error(`Erro na descriptografia: ${error.message}`)\<close>: the message of the cause
  after a fixed prefix.
\<close>

datatype error = Erro_na_descriptografia thrown

text \<open>
  \<open>crypto.hkdfSync('sha256', ikm, salt, info, keylen)\<close> takes the key material in either
  container and returns the derived bytes in an \<open>ArrayBuffer\<close> (Node documentation:
  "Returns: ArrayBuffer"). It throws for \<open>keylen > 255 * 32\<close>; the program asks for 112.
\<close>

definition hkdfSync :: "js_bytes \<Rightarrow> js_bytes \<Rightarrow> bytes \<Rightarrow> nat \<Rightarrow> js_bytes" where
  "hkdfSync ikm salt info keylen =
     ArrayBuffer (hkdf_sha256 (bytes_of ikm) (bytes_of salt) info keylen)"

text \<open>
  \<open>crypto.createHmac('sha256', key)\<close> takes the key in either container. The object it
  returns is modelled by the key and the data fed to it so far. \<open>hmac.update(data)\<close>
  takes a string or a view (\<open>Buffer\<close>, \<open>TypedArray\<close>, \<open>DataView\<close>) and throws
  \<open>ERR_INVALID_ARG_TYPE\<close> for anything else, an \<open>ArrayBuffer\<close> included (Node,
  \<open>lib/internal/crypto/hash.js\<close>: \<open>if (typeof data !== 'string' && !isArrayBufferView(data))
  throw new ERR_INVALID_ARG_TYPE(...)\<close>). \<open>hmac.digest()\<close> returns a \<open>Buffer\<close>.
\<close>

record hmac =
  hmac_key :: bytes
  hmac_data :: bytes

definition createHmac :: "js_bytes \<Rightarrow> hmac" where
  "createHmac key = \<lparr>hmac_key = bytes_of key, hmac_data = []\<rparr>"

definition hmac_update :: "hmac \<Rightarrow> js_bytes \<Rightarrow> thrown + hmac" where
  "hmac_update h data =
     (if isArrayBufferView data then Inr (h\<lparr>hmac_data := hmac_data h @ bytes_of data\<rparr>)
      else Inl ERR_INVALID_ARG_TYPE)"

definition hmac_digest :: "hmac \<Rightarrow> js_bytes" where
  "hmac_digest h = Buffer (hmac_sha256 (hmac_key h) (hmac_data h))"

text \<open>\<open>crypto.timingSafeEqual(a, b)\<close> takes either container.\<close>

definition timingSafeEqual :: "js_bytes \<Rightarrow> js_bytes \<Rightarrow> thrown + bool" where
  "timingSafeEqual a b =
     (if length (bytes_of a) \<noteq> length (bytes_of b) then Inl ERR_CRYPTO_TIMING_SAFE_EQUAL_LENGTH
      else Inr (bytes_of a = bytes_of b))"

text \<open>
  The decipher on bytes: \<open>createDecipheriv('aes-256-cbc', key, iv)\<close> with automatic
  padding, then \<open>Buffer.concat([decipher.update(data), decipher.final()])\<close>.
\<close>

definition decipher_aes_256_cbc :: "bytes \<Rightarrow> bytes \<Rightarrow> bytes \<Rightarrow> thrown + bytes" where
  "decipher_aes_256_cbc key iv data =
     (if length key \<noteq> 32 then Inl ERR_CRYPTO_INVALID_KEYLEN
      else if length iv \<noteq> 16 then Inl ERR_CRYPTO_INVALID_IV
      else if data = [] \<or> length data mod 16 \<noteq> 0 then Inl Wrong_final_block_length
      else let plain = cbc_decrypt_blocks (key_expansion key) iv (chunks 16 data);
               pad = unat (last plain)
           in if pad = 0 \<or> 16 < pad then Inl Bad_decrypt
              else if list_all (\<lambda>b. b = last plain) (drop (length plain - pad) plain)
              then Inr (take (length plain - pad) plain)
              else Inl Bad_decrypt)"

text \<open>
  \<open>crypto.createDecipheriv\<close> takes key and IV in either container;
  \<open>decipher.update(data)\<close> takes a string or a view, as \<open>hmac.update\<close> does.
\<close>

definition createDecipheriv_update_final :: "js_bytes \<Rightarrow> js_bytes \<Rightarrow> js_bytes \<Rightarrow> thrown + bytes" where
  "createDecipheriv_update_final key iv data =
     (if length (bytes_of key) \<noteq> 32 then Inl ERR_CRYPTO_INVALID_KEYLEN
      else if length (bytes_of iv) \<noteq> 16 then Inl ERR_CRYPTO_INVALID_IV
      else if \<not> isArrayBufferView data then Inl ERR_INVALID_ARG_TYPE
      else decipher_aes_256_cbc (bytes_of key) (bytes_of iv) (bytes_of data))"

section \<open>\<open>decryptWhatsAppMedia\<close>\<close>

text \<open>The calls to the \<open>crypto\<close> module, in the order in which a run makes them.\<close>

datatype crypto_call = HkdfSync | CreateHmac | TimingSafeEqual | CreateDecipheriv

text \<open>
  The statements of the \<open>try\<close> block after the key derivation (from
  \<open>const iv = expandedKey.slice(0, 16)\<close> to \<open>return decrypted\<close>), as a function of
  \<open>expandedKey\<close> and of the payload, which the first statement of the function has made a
  \<open>Buffer\<close>: the calls made, and the value returned or the error thrown.
\<close>

definition decrypt_body :: "js_bytes \<Rightarrow> bytes \<Rightarrow> crypto_call list \<times> (thrown + bytes)" where
  "decrypt_body expandedKey encryptedData =
     (let iv = js_slice expandedKey 0 16;
          cipherKey = js_slice expandedKey 16 48;
          macKey = js_slice expandedKey 48 80;
          encryptedMedia = js_slice (Buffer encryptedData) 0 (- 10);
          receivedMac = js_slice_from (Buffer encryptedData) (- 10)
      in case hmac_update (createHmac macKey) iv of
           Inl e \<Rightarrow> ([CreateHmac], Inl e)
         | Inr h1 \<Rightarrow>
        (case hmac_update h1 encryptedMedia of
           Inl e \<Rightarrow> ([CreateHmac], Inl e)
         | Inr h2 \<Rightarrow>
        (let computedMac = js_slice (hmac_digest h2) 0 10
         in case timingSafeEqual receivedMac computedMac of
              Inl e \<Rightarrow> ([CreateHmac, TimingSafeEqual], Inl e)
            | Inr equal \<Rightarrow>
                if \<not> equal
                then ([CreateHmac, TimingSafeEqual], Inl Falha_MAC_invalido)
                else ([CreateHmac, TimingSafeEqual, CreateDecipheriv],
                      createDecipheriv_update_final cipherKey iv encryptedMedia))))"

text \<open>The whole \<open>try\<close> block: the key is decoded and expanded, then the rest runs.\<close>

definition decrypt_try :: "string \<Rightarrow> bytes \<Rightarrow> crypto_call list \<times> (thrown + bytes)" where
  "decrypt_try mediaKey encryptedData =
     (let mediaKeyBuffer = Buffer (base64_decode mediaKey);
          expandedKey = hkdfSync mediaKeyBuffer (Buffer []) (ascii ''WhatsApp Media Keys'') 112;
          rest = decrypt_body expandedKey encryptedData
      in (HkdfSync # fst rest, snd rest))"

text \<open>The \<open>catch\<close> block.\<close>

definition rethrow :: "thrown + bytes \<Rightarrow> error + bytes" where
  "rethrow r = (case r of Inl e \<Rightarrow> Inl (Erro_na_descriptografia e) | Inr decrypted \<Rightarrow> Inr decrypted)"

definition decryptWhatsAppMedia :: "string \<Rightarrow> bytes \<Rightarrow> error + bytes" where
  "decryptWhatsAppMedia mediaKey encryptedData = rethrow (snd (decrypt_try mediaKey encryptedData))"

section \<open>Digest checks\<close>



section \<open>The encryptor of the round-trip law\<close>

text \<open>
  Modelled from the spec: the repository has no encryptor; the spec's round-trip law names
  a test-only one "built from the same key-derivation+AES-CBC+HMAC truncation scheme".
  It derives the keys as \<open>decryptWhatsAppMedia\<close> does, pads the plaintext (PKCS#7),
  encrypts it with AES-256-CBC and appends the first 10 bytes of HMAC-SHA256 over
  \<open>iv || ciphertext\<close>.
\<close>

definition pkcs7_pad :: "bytes \<Rightarrow> bytes" where
  "pkcs7_pad p = p @ replicate (16 - length p mod 16) (of_nat (16 - length p mod 16))"

definition encryptWhatsAppMedia :: "bytes \<Rightarrow> bytes \<Rightarrow> bytes" where
  "encryptWhatsAppMedia mediaKeyBuffer plaintext =
     (let expandedKey = hkdf_sha256 mediaKeyBuffer [] (ascii ''WhatsApp Media Keys'') 112;
          iv = take 16 expandedKey;
          cipherKey = take 32 (drop 16 expandedKey);
          macKey = take 32 (drop 48 expandedKey);
          encryptedMedia =
            cbc_encrypt_blocks (key_expansion cipherKey) iv (chunks 16 (pkcs7_pad plaintext));
          mac = take 10 (hmac_sha256 macKey (iv @ encryptedMedia))
      in encryptedMedia @ mac)"

section \<open>The signature table of the specification\<close>

text \<open>
  The format sniffer as the specification words it: an ordered table of signatures at
  offset 0, the first entry with a matching signature gives the label, and a signature
  longer than the data does not match. \<open>detectMimeType\<close> is compared with it below.
\<close>

definition signature_table :: "(bytes list \<times> string) list" where
  "signature_table =
     [([[0xFF, 0xD8, 0xFF, 0xE0], [0xFF, 0xD8, 0xFF, 0xE1]], ''image/jpeg''),
      ([[0x89, 0x50, 0x4E, 0x47, 0x0D, 0x0A, 0x1A, 0x0A]], ''image/png''),
      ([ascii ''OggS''], ''audio/ogg''),
      ([ascii ''fLaC''], ''audio/flac''),
      ([[0x00, 0x00, 0x00, 0x18], [0x00, 0x00, 0x00, 0x20]], ''video/mp4''),
      ([ascii ''ID3'', [0xFF, 0xFB]], ''audio/mpeg'')]"

definition signature_matches :: "bytes \<Rightarrow> bytes \<Rightarrow> bool" where
  "signature_matches data sig = (length sig \<le> length data \<and> take (length sig) data = sig)"

fun first_match :: "(bytes list \<times> string) list \<Rightarrow> bytes \<Rightarrow> string" where
  "first_match [] data = ''application/octet-stream''"
| "first_match ((sigs, label) # table) data =
     (if list_ex (signature_matches data) sigs then label else first_match table data)"

definition sniffMediaType :: "bytes \<Rightarrow> string" where
  "sniffMediaType data = first_match signature_table data"

text \<open>A character that has a value in the decoder's table.\<close>

definition is_base64_char :: "char \<Rightarrow> bool" where
  "is_base64_char c = (case unbase64 c of None \<Rightarrow> False | Some v \<Rightarrow> True)"

text \<open>A key schedule of AES-256: 15 round keys of 16 bytes.\<close>

definition round_keys_ok :: "bytes list \<Rightarrow> bool" where
  "round_keys_ok rks = (length rks = 15 \<and> list_all (\<lambda>k. length k = 16) rks)"

text \<open>Words \<open>0\<close> to \<open>i - 1\<close> of a key schedule under construction, four bytes each.\<close>

definition words_ok :: "nat \<Rightarrow> bytes list \<Rightarrow> bool" where
  "words_ok i w = (length w = i \<and> 8 \<le> i \<and> list_all (\<lambda>x. length x = 4) w)"

section \<open>Names for the values inside \<open>decryptWhatsAppMedia\<close>\<close>

text \<open>
  The bytes the function derives from the media key, named so that theorems can speak of
  them: the bytes of \<open>expandedKey\<close> and of its three slices, and the first 10 bytes of
  HMAC-SHA256 over \<open>iv || encryptedMedia\<close> under \<open>macKey\<close>.
\<close>

definition expanded_key :: "string \<Rightarrow> bytes" where
  "expanded_key mediaKey = hkdf_sha256 (base64_decode mediaKey) [] (ascii ''WhatsApp Media Keys'') 112"

definition iv_of :: "string \<Rightarrow> bytes" where
  "iv_of mediaKey = take 16 (expanded_key mediaKey)"

definition cipher_key_of :: "string \<Rightarrow> bytes" where
  "cipher_key_of mediaKey = take 32 (drop 16 (expanded_key mediaKey))"

definition mac_key_of :: "string \<Rightarrow> bytes" where
  "mac_key_of mediaKey = take 32 (drop 48 (expanded_key mediaKey))"

definition computed_mac :: "string \<Rightarrow> bytes \<Rightarrow> bytes" where
  "computed_mac mediaKey encryptedMedia =
     take 10 (hmac_sha256 (mac_key_of mediaKey) (iv_of mediaKey @ encryptedMedia))"

text \<open>
  The payload with bit \<open>j\<close> of byte \<open>i\<close> of its 10-byte trailer flipped.
\<close>

definition flip_mac_bit :: "bytes \<Rightarrow> nat \<Rightarrow> nat \<Rightarrow> bytes" where
  "flip_mac_bit p i j = p[length p - 10 + i := p ! (length p - 10 + i) XOR push_bit j 1]"

section \<open>The failure kinds of the specification\<close>

text \<open>
  The specification's error taxonomy, and the kind under which it files each error a run
  can end with: \<open>MacMismatch\<close> is the program's own MAC error; a blob shorter than 10
  bytes is \<open>InvalidPayloadFormat\<close>, which the program meets as the length error of the
  MAC comparison; a failure of the decipher (padding, or a ciphertext that is not whole
  blocks) is \<open>DecryptionFailure\<close>; \<open>InvalidKeyLength\<close> is a key of the wrong length. The
  taxonomy has no kind for an argument of the wrong type. \<open>failed_with r kind\<close>: the
  result \<open>r\<close> of \<open>decryptWhatsAppMedia\<close> is an error of that kind.
\<close>

datatype failure_kind = InvalidKeyLength | InvalidPayloadFormat | MacMismatch | DecryptionFailure

fun failure_kind_of :: "thrown \<Rightarrow> failure_kind option" where
  "failure_kind_of Falha_MAC_invalido = Some MacMismatch"
| "failure_kind_of ERR_CRYPTO_TIMING_SAFE_EQUAL_LENGTH = Some InvalidPayloadFormat"
| "failure_kind_of ERR_CRYPTO_INVALID_KEYLEN = Some InvalidKeyLength"
| "failure_kind_of ERR_CRYPTO_INVALID_IV = Some DecryptionFailure"
| "failure_kind_of Wrong_final_block_length = Some DecryptionFailure"
| "failure_kind_of Bad_decrypt = Some DecryptionFailure"
| "failure_kind_of ERR_INVALID_ARG_TYPE = None"

definition failed_with :: "error + bytes \<Rightarrow> failure_kind \<Rightarrow> bool" where
  "failed_with r kind =
     (case r of Inl (Erro_na_descriptografia e) \<Rightarrow> failure_kind_of e = Some kind
              | Inr decrypted \<Rightarrow> False)"


section \<open>Base64: decoding undoes encoding\<close>

lemma bit_position: "i < LENGTH(8) \<Longrightarrow> i \<in> {0, 1, 2, 3, 4, 5, 6, 7 :: nat}"
  by auto

lemma sextet_bound: "(v::byte) AND 0x3F = v \<Longrightarrow> unat v < 64"
proof -
  assume h: "v AND 0x3F = v"
  have "unat (v AND 0x3F) \<le> unat (0x3F :: byte)"
    by (rule word_and_le1 [THEN word_le_nat_alt [THEN iffD1]])
  with h show ?thesis by simp
qed

lemma unbase64_alphabet:
  "map unbase64 b64_alphabet = map (\<lambda>n. Some (of_nat n)) [0..<64]"
  by (simp add: unbase64_def b64_alphabet_def upt_rec [of _ "numeral _"] upt_rec [of 0] Let_def)

lemma length_b64_alphabet: "length b64_alphabet = 64"
  by (simp add: b64_alphabet_def)

lemma unbase64_b64_char:
  assumes "v AND 0x3F = v"
  shows "unbase64 (b64_char v) = Some v"
proof -
  have lt: "unat v < 64" using assms by (rule sextet_bound)
  have "unbase64 (b64_alphabet ! unat v) = map unbase64 b64_alphabet ! unat v"
    using lt by (simp add: length_b64_alphabet)
  also have "\<dots> = map (\<lambda>n. Some (of_nat n)) [0..<64] ! unat v"
    by (simp only: unbase64_alphabet)
  also have "\<dots> = Some v"
    using lt by simp
  finally show ?thesis by (simp add: b64_char_def)
qed

lemma unbase64_pad: "unbase64 CHR ''='' = None"
  by (simp add: unbase64_def)

lemma b64_char_not_pad:
  assumes "v AND 0x3F = v"
  shows "b64_char v \<noteq> CHR ''=''"
  using unbase64_b64_char [OF assms] unbase64_pad by auto

lemma sextet1: "drop_bit 2 (a::byte) AND 0x3F = drop_bit 2 a"
  apply (rule bit_word_eqI)
  apply (drule bit_position)
  apply (elim insertE emptyE)
         apply (auto simp add: bit_simps dest: bit_imp_le_length)
  done

lemma sextet2:
  "(push_bit 4 (a AND 0x03) OR drop_bit 4 (b::byte)) AND 0x3F
   = push_bit 4 (a AND 0x03) OR drop_bit 4 b"
  apply (rule bit_word_eqI)
  apply (drule bit_position)
  apply (elim insertE emptyE)
         apply (auto simp add: bit_simps dest: bit_imp_le_length)
  done

lemma sextet3:
  "(push_bit 2 (b AND 0x0F) OR drop_bit 6 (c::byte)) AND 0x3F
   = push_bit 2 (b AND 0x0F) OR drop_bit 6 c"
  apply (rule bit_word_eqI)
  apply (drule bit_position)
  apply (elim insertE emptyE)
         apply (auto simp add: bit_simps dest: bit_imp_le_length)
  done

lemma sextet4: "((c::byte) AND 0x3F) AND 0x3F = c AND 0x3F"
  by (simp add: and.assoc)

lemma sextet2_last: "push_bit 4 ((a::byte) AND 0x03) AND 0x3F = push_bit 4 (a AND 0x03)"
  using sextet2 [of a 0] by simp

lemma sextet3_last: "push_bit 2 ((b::byte) AND 0x0F) AND 0x3F = push_bit 2 (b AND 0x0F)"
  using sextet3 [of b 0] by simp

lemmas sextets = sextet1 sextet2 sextet3 sextet4 sextet2_last sextet3_last

lemma join1:
  "push_bit 2 (drop_bit 2 a)
   OR drop_bit 4 ((push_bit 4 (a AND 0x03) OR drop_bit 4 b) AND 0x30) = (a::byte)"
  apply (rule bit_word_eqI)
  apply (drule bit_position)
  apply (elim insertE emptyE)
         apply (simp_all add: bit_simps)
  done

lemma join2:
  "push_bit 4 ((push_bit 4 (a AND 0x03) OR drop_bit 4 b) AND 0x0F)
   OR drop_bit 2 ((push_bit 2 (b AND 0x0F) OR drop_bit 6 c) AND 0x3C) = (b::byte)"
  apply (rule bit_word_eqI)
  apply (drule bit_position)
  apply (elim insertE emptyE)
         apply (simp_all add: bit_simps)
  done

lemma join3:
  "push_bit 6 ((push_bit 2 (b AND 0x0F) OR drop_bit 6 c) AND 0x03) OR (c AND 0x3F) = (c::byte)"
  apply (rule bit_word_eqI)
  apply (drule bit_position)
  apply (elim insertE emptyE)
         apply (simp_all add: bit_simps)
  done

lemma join1_last:
  "push_bit 2 (drop_bit 2 a) OR drop_bit 4 (push_bit 4 (a AND 0x03) AND 0x30) = (a::byte)"
  using join1 [of a 0] by simp

lemma join2_last:
  "push_bit 4 ((push_bit 4 (a AND 0x03) OR drop_bit 4 b) AND 0x0F)
   OR drop_bit 2 (push_bit 2 (b AND 0x0F) AND 0x3C) = (b::byte)"
  using join2 [of a b 0] by simp

lemmas b64_step =
  base64_encode.simps base64_decode_def takeWhile.simps List.map_filter_simps
  b64_char_not_pad unbase64_b64_char sextets option.simps decode_sextets.simps
  if_True if_False simp_thms

lemma base64_decode_encode: "base64_decode (base64_encode bs) = bs"
proof (induction bs rule: base64_encode.induct)
  case (1 a b c rest)
  then show ?case
    by (simp only: b64_step join1 join2 join3)
next
  case (2 a b)
  show ?case
    by (simp only: b64_step unbase64_pad join1 join2_last)
next
  case (3 a)
  show ?case
    by (simp only: b64_step unbase64_pad join1_last)
next
  case 4
  show ?case by (simp add: base64_decode_def)
qed


lemma decode_skips:
  "List.map_filter unbase64
     (takeWhile (\<lambda>c. c \<noteq> CHR ''='') (filter (\<lambda>c. c = CHR ''='' \<or> is_base64_char c) s))
   = List.map_filter unbase64 (takeWhile (\<lambda>c. c \<noteq> CHR ''='') s)"
  by (induction s) (auto simp: is_base64_char_def split: option.splits)

lemma base64_decode_lenient:
  "base64_decode (filter (\<lambda>c. c = CHR ''='' \<or> is_base64_char c) s) = base64_decode s"
  by (simp add: base64_decode_def decode_skips)

section \<open>Slices\<close>

lemma buffer_slice_0: "0 \<le> n \<Longrightarrow> buffer_slice xs 0 n = take (nat n) xs"
  by (simp add: buffer_slice_def clamp_index_def Let_def min_def)

section \<open>The validators\<close>

text \<open>
  C6. \<open>validateEncryptedData\<close> accepts a payload exactly when it has at least 10 bytes
  and its length minus 10 is a multiple of 16; it rejects the lengths 9 and 27 and accepts
  the length 26.
\<close>

theorem validateEncryptedData_iff:
  "validateEncryptedData p = (10 \<le> length p \<and> (length p - 10) mod 16 = 0)
   \<and> validateEncryptedData (replicate 9 x) = False
   \<and> validateEncryptedData (replicate 27 x) = False
   \<and> validateEncryptedData (replicate 26 x) = True"
  by (auto simp: validateEncryptedData_def Let_def)

text \<open>
  C7. \<open>validateMediaKey\<close> accepts a string exactly when its base64 decoding has 32 bytes.
  On the encoding of a byte sequence this is the length of the sequence, so the encodings
  of 16 and of 33 bytes and the empty string are rejected.
\<close>

theorem validateMediaKey_iff:
  "validateMediaKey s = (length (base64_decode s) = 32)
   \<and> validateMediaKey (base64_encode k) = (length k = 32)
   \<and> validateMediaKey (base64_encode (replicate 16 x)) = False
   \<and> validateMediaKey (base64_encode (replicate 33 x)) = False
   \<and> validateMediaKey [] = False"
proof -
  have "base64_decode [] = []"
    by (simp add: base64_decode_def)
  then show ?thesis
    by (simp add: validateMediaKey_def base64_decode_encode)
qed

text \<open>
  C10. \<open>validateMediaKey\<close> is a total function from strings to booleans, and its decoder
  is lenient: removing from a string every character that is neither in the alphabet nor
  \<open>=\<close> changes neither the decoded bytes nor the verdict. So a string that is not the
  base64 encoding of anything (blanks inside, no padding) is accepted when the bytes
  decoded from it are 32.
\<close>

theorem validateMediaKey_lenient:
  "validateMediaKey s = (length (base64_decode s) = 32)
   \<and> base64_decode (filter (\<lambda>c. c = CHR ''='' \<or> is_base64_char c) s) = base64_decode s
   \<and> validateMediaKey (filter (\<lambda>c. c = CHR ''='' \<or> is_base64_char c) s) = validateMediaKey s
   \<and> validateMediaKey '' IhEc hJTS 7Biz 4gOz ogb+ XDfE 5dx5 0WPV G2WV AiKZ pUI'' = True
   \<and> base64_encode (base64_decode '' IhEc hJTS 7Biz 4gOz ogb+ XDfE 5dx5 0WPV G2WV AiKZ pUI'')
       = ''IhEchJTS7Biz4gOzogb+XDfE5dx50WPVG2WVAiKZpUI=''"
proof -
  have a: "validateMediaKey s = (length (base64_decode s) = 32)"
    by (simp add: validateMediaKey_def)
  have b: "base64_decode (filter (\<lambda>c. c = CHR ''='' \<or> is_base64_char c) s) = base64_decode s"
    by (rule base64_decode_lenient)
  have c: "validateMediaKey (filter (\<lambda>c. c = CHR ''='' \<or> is_base64_char c) s) = validateMediaKey s"
    by (simp add: validateMediaKey_def base64_decode_lenient)
  have d: "validateMediaKey '' IhEc hJTS 7Biz 4gOz ogb+ XDfE 5dx5 0WPV G2WV AiKZ pUI'' = True"
    by code_simp
  have e: "base64_encode (base64_decode '' IhEc hJTS 7Biz 4gOz ogb+ XDfE 5dx5 0WPV G2WV AiKZ pUI'')
       = ''IhEchJTS7Biz4gOzogb+XDfE5dx50WPVG2WVAiKZpUI=''"
    by code_simp
  from a b c d e show ?thesis by (intro conjI)
qed

section \<open>Magic bytes\<close>

lemma take_eq_signature:
  assumes "length sig = n"
  shows "(take n d = sig) = signature_matches d sig"
proof
  assume h: "take n d = sig"
  then have "length (take n d) = n" using assms by simp
  then have "n \<le> length d" by simp
  with h assms show "signature_matches d sig" by (simp add: signature_matches_def)
next
  assume "signature_matches d sig"
  with assms show "take n d = sig" by (simp add: signature_matches_def)
qed

lemma magic_slice:
  assumes "length sig = n" and "n \<le> 12"
  shows "(buffer_slice (buffer_slice d 0 12) 0 (int n) = sig) = signature_matches d sig"
proof -
  have "buffer_slice (buffer_slice d 0 12) 0 (int n) = take n d"
    using assms(2) by (simp add: buffer_slice_0 min_def)
  then show ?thesis using take_eq_signature [OF assms(1)] by simp
qed

lemma magic2:
  "length sig = 2 \<Longrightarrow> (buffer_slice (buffer_slice d 0 12) 0 2 = sig) = signature_matches d sig"
  using magic_slice [of sig 2 d] by simp

lemma magic3:
  "length sig = 3 \<Longrightarrow> (buffer_slice (buffer_slice d 0 12) 0 3 = sig) = signature_matches d sig"
  using magic_slice [of sig 3 d] by simp

lemma magic4:
  "length sig = 4 \<Longrightarrow> (buffer_slice (buffer_slice d 0 12) 0 4 = sig) = signature_matches d sig"
  using magic_slice [of sig 4 d] by simp

lemma magic8:
  "length sig = 8 \<Longrightarrow> (buffer_slice (buffer_slice d 0 12) 0 8 = sig) = signature_matches d sig"
  using magic_slice [of sig 8 d] by simp

lemmas magic = magic2 magic3 magic4 magic8

text \<open>
  C8. \<open>detectMimeType\<close> is the first match in the ordered signature table (jpeg, png,
  OggS, fLaC, mp4, mpeg), and \<open>application/octet-stream\<close> when no signature matches; a
  signature longer than the data does not match. It is a total function: data that
  starts with the JPEG or the PNG signature gets that label, and empty data or a cut-off
  signature gets the generic label.
\<close>

theorem detectMimeType_first_match:
  "detectMimeType d = first_match signature_table d
   \<and> signature_matches d sig = (length sig \<le> length d \<and> take (length sig) d = sig)
   \<and> detectMimeType ([0xFF, 0xD8, 0xFF, 0xE0] @ rest) = ''image/jpeg''
   \<and> detectMimeType ([0x89, 0x50, 0x4E, 0x47, 0x0D, 0x0A, 0x1A, 0x0A] @ rest) = ''image/png''
   \<and> detectMimeType [] = ''application/octet-stream''
   \<and> detectMimeType [0xFF, 0xD8, 0xFF] = ''application/octet-stream''"
proof -
  have a: "detectMimeType d = first_match signature_table d"
    by (simp add: detectMimeType_def signature_table_def Let_def magic ascii_def)
  have b: "signature_matches d sig = (length sig \<le> length d \<and> take (length sig) d = sig)"
    by (simp add: signature_matches_def)
  have c: "detectMimeType ([0xFF, 0xD8, 0xFF, 0xE0] @ rest) = ''image/jpeg''"
    by (simp add: detectMimeType_def Let_def magic signature_matches_def)
  have d: "detectMimeType ([0x89, 0x50, 0x4E, 0x47, 0x0D, 0x0A, 0x1A, 0x0A] @ rest) = ''image/png''"
    by (simp add: detectMimeType_def Let_def magic signature_matches_def)
  have e: "detectMimeType [] = ''application/octet-stream''"
    by (simp add: detectMimeType_def Let_def magic signature_matches_def ascii_def)
  have f: "detectMimeType [0xFF, 0xD8, 0xFF] = ''application/octet-stream''"
    by (simp add: detectMimeType_def Let_def magic signature_matches_def ascii_def)
  from a b c d e f show ?thesis by (intro conjI)
qed

section \<open>The block cipher: decryption undoes encryption\<close>

lemma xtime_xor: "xtime (a XOR b) = xtime a XOR xtime b"
  by (simp add: xtime_def bit_xor_iff push_bit_xor ac_simps)

lemma inv_mix_column:
  "inv_mix_columns (mix_columns (a # b # c # d # rest))
   = a # b # c # d # inv_mix_columns (mix_columns rest)"
  by (simp add: mul9_def mul11_def mul13_def mul14_def xtime_xor ac_simps)

lemma state16:
  assumes "length (s::bytes) = 16"
  obtains a0 a1 a2 a3 a4 a5 a6 a7 a8 a9 a10 a11 a12 a13 a14 a15
  where "s = [a0, a1, a2, a3, a4, a5, a6, a7, a8, a9, a10, a11, a12, a13, a14, a15]"
  using assms by (auto simp: eval_nat_numeral length_Suc_conv)

lemma inv_mix_columns_mix_columns:
  assumes "length s = 16"
  shows "inv_mix_columns (mix_columns s) = s"
proof -
  from assms obtain a0 a1 a2 a3 a4 a5 a6 a7 a8 a9 a10 a11 a12 a13 a14 a15
    where s: "s = [a0, a1, a2, a3, a4, a5, a6, a7, a8, a9, a10, a11, a12, a13, a14, a15]"
    by (rule state16)
  show ?thesis unfolding s by (simp only: inv_mix_column) simp
qed

lemma inv_shift_rows_shift_rows:
  assumes "length s = 16"
  shows "inv_shift_rows (shift_rows s) = s"
proof -
  from assms obtain a0 a1 a2 a3 a4 a5 a6 a7 a8 a9 a10 a11 a12 a13 a14 a15
    where s: "s = [a0, a1, a2, a3, a4, a5, a6, a7, a8, a9, a10, a11, a12, a13, a14, a15]"
    by (rule state16)
  show ?thesis unfolding s by (simp add: shift_rows_def inv_shift_rows_def)
qed

lemma sbox_tables:
  "map (\<lambda>x. inv_sbox_table ! unat x) sbox_table = map of_nat [0..<256]"
  by (simp add: sbox_table_def inv_sbox_table_def upt_rec [of _ "numeral _"] upt_rec [of 0])

lemma length_sbox_table: "length sbox_table = 256"
  by (simp add: sbox_table_def)

lemma unat_byte_less: "unat (x::byte) < 256"
  using unsigned_less [of x, where ?'a = nat] by simp

lemma inv_sbox_sbox: "inv_sbox (sbox x) = x"
proof -
  have lt: "unat x < 256" by (rule unat_byte_less)
  have "inv_sbox (sbox x) = map (\<lambda>x. inv_sbox_table ! unat x) sbox_table ! unat x"
    using lt by (simp add: inv_sbox_def sbox_def length_sbox_table)
  also have "\<dots> = map of_nat [0..<256] ! unat x"
    by (simp only: sbox_tables)
  also have "\<dots> = x"
    using lt by simp
  finally show ?thesis .
qed

lemma inv_sub_bytes_sub_bytes: "inv_sub_bytes (sub_bytes s) = s"
  by (simp add: inv_sub_bytes_def sub_bytes_def inv_sbox_sbox comp_def)

lemma length_xor_bytes: "length (xor_bytes a b) = min (length a) (length b)"
  by (simp add: xor_bytes_def)

lemma xor_bytes_cancel:
  assumes "length a = length b"
  shows "xor_bytes (xor_bytes a b) b = a"
  using assms by (induction a b rule: list_induct2) (simp_all add: xor_bytes_def xor.assoc)

lemma length_sub_bytes: "length (sub_bytes s) = length s"
  by (simp add: sub_bytes_def)

lemma length_shift_rows: "length (shift_rows s) = 16"
  by (simp add: shift_rows_def)

lemma length_mix_columns:
  assumes "length s = 16"
  shows "length (mix_columns s) = 16"
proof -
  from assms obtain a0 a1 a2 a3 a4 a5 a6 a7 a8 a9 a10 a11 a12 a13 a14 a15
    where s: "s = [a0, a1, a2, a3, a4, a5, a6, a7, a8, a9, a10, a11, a12, a13, a14, a15]"
    by (rule state16)
  show ?thesis unfolding s by simp
qed

lemma length_aes_round:
  assumes "length k = 16"
  shows "length (aes_round s k) = 16"
  using assms by (simp add: aes_round_def length_xor_bytes length_mix_columns length_shift_rows)

lemma aes_inv_round_round:
  assumes "length s = 16" and "length k = 16"
  shows "aes_inv_round k (aes_round s k) = s"
proof -
  have m: "length (mix_columns (shift_rows (sub_bytes s))) = 16"
    by (simp add: length_mix_columns length_shift_rows)
  have "xor_bytes (aes_round s k) k = mix_columns (shift_rows (sub_bytes s))"
    unfolding aes_round_def using m assms(2) by (simp add: xor_bytes_cancel)
  then show ?thesis
    using assms(1)
    by (simp add: aes_inv_round_def inv_mix_columns_mix_columns length_shift_rows
        inv_shift_rows_shift_rows length_sub_bytes inv_sub_bytes_sub_bytes)
qed

lemma aes_rounds_inverse:
  assumes "length s = 16" and "list_all (\<lambda>k. length k = 16) ks"
  shows "foldr aes_inv_round ks (foldl aes_round s ks) = s"
  using assms
proof (induction ks arbitrary: s)
  case Nil
  then show ?case by simp
next
  case (Cons k ks)
  then have k: "length k = 16" and ks: "list_all (\<lambda>k. length k = 16) ks"
    by simp_all
  have "foldr aes_inv_round ks (foldl aes_round (aes_round s k) ks) = aes_round s k"
    using Cons.IH [OF length_aes_round [OF k] ks] .
  then show ?case
    using Cons.prems(1) k by (simp add: aes_inv_round_round)
qed

lemma length_aes_rounds:
  assumes "length s = 16" and "list_all (\<lambda>k. length k = 16) ks"
  shows "length (foldl aes_round s ks) = 16"
  using assms by (induction ks arbitrary: s) (simp_all add: length_aes_round)

lemma in_set_tl: "x \<in> set (tl xs) \<Longrightarrow> x \<in> set xs"
  by (cases xs) simp_all

lemma length_aes256_encrypt_block:
  assumes "round_keys_ok rks"
  shows "length (aes256_encrypt_block rks b) = 16"
proof -
  have "length (rks ! 14) = 16"
    using assms by (simp add: round_keys_ok_def list_all_length)
  then show ?thesis
    by (simp add: aes256_encrypt_block_def Let_def length_xor_bytes length_shift_rows)
qed

lemma aes256_decrypt_encrypt_block:
  assumes "round_keys_ok rks" and "length b = 16"
  shows "aes256_decrypt_block rks (aes256_encrypt_block rks b) = b"
proof -
  let ?mid = "take 13 (tl rks)"
  let ?init = "xor_bytes b (rks ! 0)"
  let ?s = "foldl aes_round ?init ?mid"
  have k0: "length (rks ! 0) = 16" and k14: "length (rks ! 14) = 16"
    using assms(1) by (simp_all add: round_keys_ok_def list_all_length)
  have ks: "list_all (\<lambda>k. length k = 16) ?mid"
    using assms(1) by (auto simp: round_keys_ok_def list_all_iff dest!: in_set_takeD in_set_tl)
  have s0: "length ?init = 16"
    using k0 assms(2) by (simp add: length_xor_bytes)
  have s: "length ?s = 16"
    using s0 ks by (rule length_aes_rounds)
  have fin: "length (shift_rows (sub_bytes ?s)) = length (rks ! 14)"
    using k14 by (simp add: length_shift_rows)
  have "inv_sub_bytes (inv_shift_rows (xor_bytes (aes256_encrypt_block rks b) (rks ! 14))) = ?s"
    unfolding aes256_encrypt_block_def Let_def
    using s by (simp add: xor_bytes_cancel [OF fin] inv_shift_rows_shift_rows length_sub_bytes
        inv_sub_bytes_sub_bytes)
  then have "aes256_decrypt_block rks (aes256_encrypt_block rks b) = xor_bytes (foldr aes_inv_round ?mid ?s) (rks ! 0)"
    by (simp add: aes256_decrypt_block_def Let_def)
  also have "\<dots> = xor_bytes ?init (rks ! 0)"
    by (simp only: aes_rounds_inverse [OF s0 ks])
  also have "\<dots> = b"
    using assms(2) k0 by (simp add: xor_bytes_cancel)
  finally show ?thesis .
qed

section \<open>Blocks, key schedule and CBC\<close>

lemma chunks_append:
  assumes "0 < n" and "length a = n"
  shows "chunks n (a @ b) = a # chunks n b"
  using assms by (subst chunks.simps) auto

lemma chunks_Nil: "chunks n [] = []"
  by (subst chunks.simps) simp

lemma concat_chunks: "0 < n \<Longrightarrow> concat (chunks n xs) = xs"
proof (induction n xs rule: chunks.induct)
  case (1 n xs)
  show ?case
  proof (cases "xs = []")
    case True
    then show ?thesis by (simp add: chunks_Nil)
  next
    case False
    with 1 show ?thesis by (subst chunks.simps) simp
  qed
qed

lemma chunks_exact:
  assumes "0 < n"
  shows "length xs = n * k \<Longrightarrow> length (chunks n xs) = k \<and> list_all (\<lambda>c. length c = n) (chunks n xs)"
proof (induction k arbitrary: xs)
  case 0
  then show ?case by (simp add: chunks_Nil)
next
  case (Suc k)
  let ?a = "take n xs" and ?b = "drop n xs"
  have a: "length ?a = n" using Suc.prems by simp
  have b: "length ?b = n * k" using Suc.prems by simp
  have "chunks n xs = ?a # chunks n ?b"
    using chunks_append [OF assms a, of ?b] by simp
  then show ?case using Suc.IH [OF b] a by simp
qed

lemma key_expansion_step_ok:
  assumes "words_ok i w"
  shows "words_ok (Suc i) (key_expansion_step w i)"
proof -
  from assms have len: "length w = i" and i: "8 \<le> i" and all: "list_all (\<lambda>x. length x = 4) w"
    by (simp_all add: words_ok_def)
  have prev: "length (w ! (i - Suc 0)) = 4" and eightback: "length (w ! (i - 8)) = 4"
    using len i all by (simp_all add: list_all_length)
  show ?thesis
    using len i all prev eightback
    by (simp add: words_ok_def key_expansion_step_def Let_def length_xor_bytes)
qed

lemma key_expansion_steps_ok:
  assumes "words_ok a w" and "a \<le> b"
  shows "words_ok b (foldl key_expansion_step w [a..<b])"
  using assms(2,1)
proof (induction b rule: dec_induct)
  case base
  then show ?case by simp
next
  case (step n)
  then show ?case by (simp add: key_expansion_step_ok)
qed

lemma round_keys_ok_key_expansion:
  assumes "length key = 32"
  shows "round_keys_ok (key_expansion key)"
proof -
  let ?w = "foldl key_expansion_step (chunks 4 key) [8..<60]"
  have "length key = 4 * 8" using assms by simp
  then have "length (chunks 4 key) = 8 \<and> list_all (\<lambda>c. length c = 4) (chunks 4 key)"
    by (rule chunks_exact [rotated]) simp
  then have "words_ok 8 (chunks 4 key)" by (simp add: words_ok_def)
  then have w: "words_ok 60 ?w" by (rule key_expansion_steps_ok) simp
  then have "length ?w = 4 * 15" by (simp add: words_ok_def)
  then have g: "length (chunks 4 ?w) = 15 \<and> list_all (\<lambda>c. length c = 4) (chunks 4 ?w)"
    by (rule chunks_exact [rotated]) simp
  have "list_all (\<lambda>g. length (concat g) = 16) (chunks 4 ?w)"
    unfolding list_all_iff
  proof
    fix g assume g_in: "g \<in> set (chunks 4 ?w)"
    with g have lg: "length g = 4" by (simp add: list_all_iff)
    have "set g \<subseteq> set ?w"
    proof -
      have "set (concat (chunks 4 ?w)) = set ?w" by (simp add: concat_chunks)
      with g_in show ?thesis by auto
    qed
    with w have "list_all (\<lambda>x. length x = 4) g"
      by (auto simp: words_ok_def list_all_iff)
    with lg obtain x0 x1 x2 x3 where "g = [x0, x1, x2, x3]"
      and "length x0 = 4" "length x1 = 4" "length x2 = 4" "length x3 = 4"
      by (auto simp: eval_nat_numeral length_Suc_conv)
    then show "length (concat g) = 16" by simp
  qed
  with g show ?thesis
    by (simp add: round_keys_ok_def key_expansion_def list_all_iff)
qed

lemma length_cbc_encrypt_blocks:
  assumes "round_keys_ok rks"
  shows "length (cbc_encrypt_blocks rks prev ps) = 16 * length ps"
  using assms
  by (induction ps arbitrary: prev) (simp_all add: Let_def length_aes256_encrypt_block)

lemma cbc_decrypt_encrypt:
  assumes "round_keys_ok rks" and "length iv = 16" and "list_all (\<lambda>p. length p = 16) ps"
  shows "cbc_decrypt_blocks rks iv (chunks 16 (cbc_encrypt_blocks rks iv ps)) = concat ps"
  using assms(2,3)
proof (induction ps arbitrary: iv)
  case Nil
  then show ?case by (simp add: chunks_Nil)
next
  case (Cons p ps)
  let ?c = "aes256_encrypt_block rks (xor_bytes p iv)"
  have c: "length ?c = 16" using assms(1) by (rule length_aes256_encrypt_block)
  have p: "length p = 16" and ps: "list_all (\<lambda>p. length p = 16) ps"
    using Cons.prems(2) by simp_all
  have x: "length (xor_bytes p iv) = 16"
    using p Cons.prems(1) by (simp add: length_xor_bytes)
  have "chunks 16 (cbc_encrypt_blocks rks iv (p # ps)) = ?c # chunks 16 (cbc_encrypt_blocks rks ?c ps)"
    using chunks_append [of 16 ?c "cbc_encrypt_blocks rks ?c ps"] c by (simp add: Let_def)
  then have "cbc_decrypt_blocks rks iv (chunks 16 (cbc_encrypt_blocks rks iv (p # ps)))
      = xor_bytes (aes256_decrypt_block rks ?c) iv
        @ cbc_decrypt_blocks rks ?c (chunks 16 (cbc_encrypt_blocks rks ?c ps))"
    by simp
  also have "\<dots> = xor_bytes (xor_bytes p iv) iv @ concat ps"
    using Cons.IH [OF c ps] aes256_decrypt_encrypt_block [OF assms(1) x] by simp
  also have "\<dots> = p @ concat ps"
    using p Cons.prems(1) by (simp add: xor_bytes_cancel)
  finally show ?case by simp
qed

section \<open>Padding: the decipher undoes the encryptor's cipher\<close>

lemma length_pkcs7_pad: "length (pkcs7_pad p) = 16 * (length p div 16 + 1)"
proof -
  have "length p mod 16 < 16" by simp
  then show ?thesis
    by (simp add: pkcs7_pad_def) arith
qed

lemma pkcs7_pad_blocks:
  "length (chunks 16 (pkcs7_pad p)) = length p div 16 + 1
   \<and> list_all (\<lambda>c. length c = 16) (chunks 16 (pkcs7_pad p))"
  by (rule chunks_exact [OF _ length_pkcs7_pad]) simp

lemma unat_pad_byte:
  assumes "n \<le> 16"
  shows "unat (of_nat n :: byte) = n"
  using assms by (simp add: unat_of_nat)

lemma decipher_encrypt:
  assumes "length key = 32" and "length iv = 16"
  shows "decipher_aes_256_cbc key iv
           (cbc_encrypt_blocks (key_expansion key) iv (chunks 16 (pkcs7_pad p))) = Inr p"
proof -
  let ?rks = "key_expansion key"
  let ?n = "16 - length p mod 16"
  let ?padded = "pkcs7_pad p"
  let ?data = "cbc_encrypt_blocks ?rks iv (chunks 16 ?padded)"
  have rks: "round_keys_ok ?rks" using assms(1) by (rule round_keys_ok_key_expansion)
  have n: "0 < ?n" "?n \<le> 16" "length p mod 16 < 16" by simp_all
  have len_data: "length ?data = 16 * (length p div 16 + 1)"
    using pkcs7_pad_blocks [of p] by (simp add: length_cbc_encrypt_blocks [OF rks])
  then have ne: "?data \<noteq> []" and al: "length ?data mod 16 = 0"
    by auto
  have plain: "cbc_decrypt_blocks ?rks iv (chunks 16 ?data) = ?padded"
    using cbc_decrypt_encrypt [OF rks assms(2), of "chunks 16 ?padded"] pkcs7_pad_blocks [of p]
    by (simp add: concat_chunks)
  have padded: "?padded = p @ replicate ?n (of_nat ?n)"
    by (simp add: pkcs7_pad_def)
  have last: "last ?padded = of_nat ?n"
    using n(1) unfolding padded by simp
  have pad: "unat (last ?padded) = ?n"
    unfolding last using n(2) by (rule unat_pad_byte)
  have dr: "drop (length ?padded - ?n) ?padded = replicate ?n (of_nat ?n)"
    unfolding padded by simp
  have tk: "take (length ?padded - ?n) ?padded = p"
    unfolding padded by simp
  have chk: "list_all (\<lambda>b. b = last ?padded) (drop (length ?padded - ?n) ?padded)"
    unfolding dr last by (simp add: list_all_iff)
  show ?thesis
    unfolding decipher_aes_256_cbc_def Let_def plain pad
    using assms ne al chk tk by (simp add: not_le not_less)
qed

lemma decipher_outcomes:
  assumes "length key = 32" and "length iv = 16"
  shows "decipher_aes_256_cbc key iv data = Inl Wrong_final_block_length
       \<or> decipher_aes_256_cbc key iv data = Inl Bad_decrypt
       \<or> (\<exists>d. decipher_aes_256_cbc key iv data = Inr d)"
  using assms by (simp add: decipher_aes_256_cbc_def Let_def)

lemma decipher_misaligned:
  assumes "length key = 32" and "length iv = 16" and "data = [] \<or> length data mod 16 \<noteq> 0"
  shows "decipher_aes_256_cbc key iv data = Inl Wrong_final_block_length"
  using assms by (auto simp add: decipher_aes_256_cbc_def)

lemma createDecipheriv_misaligned:
  assumes "length (bytes_of data) mod 16 \<noteq> 0"
  shows "\<exists>e. createDecipheriv_update_final key iv data = Inl e"
  using assms by (auto simp add: createDecipheriv_update_final_def decipher_aes_256_cbc_def)

section \<open>SHA-256, HMAC and HKDF: lengths and known answers\<close>

lemma length_sha256: "length (sha256 m) = 32"
  by (simp add: sha256_def be32_bytes_def Let_def)

lemma length_hmac_sha256: "length (hmac_sha256 key msg) = 32"
  by (simp add: hmac_sha256_def Let_def length_sha256)

lemma length_hkdf_expand: "length (hkdf_expand prk info i prev n) = 32 * n"
  by (induction n arbitrary: i prev) (simp_all add: Let_def length_hmac_sha256)

lemma length_hkdf_sha256: "length (hkdf_sha256 ikm salt info keylen) = keylen"
proof -
  have "keylen \<le> 32 * ((keylen + 31) div 32)" by arith
  then show ?thesis
    by (simp add: hkdf_sha256_def Let_def length_hkdf_expand)
qed

text \<open>
  The derivation of the program, unfolded: the 112 bytes are the first 112 of
  \<open>T(1) || T(2) || T(3) || T(4)\<close>, with \<open>PRK = HMAC(32 zero bytes, key)\<close> and
  \<open>T(i) = HMAC(PRK, T(i-1) || info || i)\<close>.
\<close>

lemma hkdf_expand_4:
  "hkdf_expand prk info 1 [] 4 =
     (let t1 = hmac_sha256 prk (info @ [1]);
          t2 = hmac_sha256 prk (t1 @ info @ [2]);
          t3 = hmac_sha256 prk (t2 @ info @ [3]);
          t4 = hmac_sha256 prk (t3 @ info @ [4])
      in t1 @ t2 @ t3 @ t4)"
proof -
  have four: "(4::nat) = Suc (Suc (Suc (Suc 0)))" by simp
  show ?thesis
    unfolding four by (simp add: Let_def)
qed

lemma hkdf_sha256_112:
  "hkdf_sha256 ikm [] info 112 =
     take 112 (hkdf_expand (hmac_sha256 (replicate 32 0) ikm) info 1 [] 4)"
  by (simp add: hkdf_sha256_def Let_def)


lemma hmac_sha256_rfc4231:
  "hmac_sha256 (ascii ''Jefe'') (ascii ''what do ya want for nothing?'') =
     [0x5b, 0xdc, 0xc1, 0x46, 0xbf, 0x60, 0x75, 0x4e, 0x6a, 0x04, 0x24, 0x26, 0x08, 0x95, 0x75, 0xc7,
      0x5a, 0x00, 0x3f, 0x08, 0x9d, 0x27, 0x39, 0x83, 0x9d, 0xec, 0x58, 0xb9, 0x64, 0xec, 0x38, 0x43]"
  by code_simp

lemma aes256_fips197:
  "aes256_encrypt_block
     (key_expansion
        [0x00, 0x01, 0x02, 0x03, 0x04, 0x05, 0x06, 0x07, 0x08, 0x09, 0x0a, 0x0b, 0x0c, 0x0d, 0x0e, 0x0f,
         0x10, 0x11, 0x12, 0x13, 0x14, 0x15, 0x16, 0x17, 0x18, 0x19, 0x1a, 0x1b, 0x1c, 0x1d, 0x1e, 0x1f])
     [0x00, 0x11, 0x22, 0x33, 0x44, 0x55, 0x66, 0x77, 0x88, 0x99, 0xaa, 0xbb, 0xcc, 0xdd, 0xee, 0xff]
   = [0x8e, 0xa2, 0xb7, 0xca, 0x51, 0x67, 0x45, 0xbf, 0xea, 0xfc, 0x49, 0x90, 0x4b, 0x49, 0x60, 0x89]"
  by code_simp

section \<open>Digest checks\<close>









text \<open>
  That altered data are rejected rests on SHA-256 and cannot be had of every pair of byte
  sequences: SHA-256 maps the \<open>256 ^ 33\<close> sequences of length 33 to \<open>256 ^ 32\<close>
  digests, so two of them share a digest, though no such pair is known.
\<close>

lemma sha256_collision:
  "\<exists>d d'. length d = 33 \<and> length d' = 33 \<and> d \<noteq> d' \<and> sha256 d = sha256 d'"
proof -
  let ?A = "{d::bytes. length d = 33}" and ?B = "{h::bytes. length h = 32}"
  have cardA: "card ?A = 256 ^ 33" and finA: "finite ?A"
    using card_lists_length_eq [of "UNIV :: byte set" 33]
      finite_lists_length_eq [of "UNIV :: byte set" 33] by (simp_all add: card_word)
  have cardB: "card ?B = 256 ^ 32" and finB: "finite ?B"
    using card_lists_length_eq [of "UNIV :: byte set" 32]
      finite_lists_length_eq [of "UNIV :: byte set" 32] by (simp_all add: card_word)
  have "sha256 ` ?A \<subseteq> ?B" by (auto simp: length_sha256)
  then have "card (sha256 ` ?A) \<le> card ?B" using finB by (rule card_mono [rotated])
  then have "card (sha256 ` ?A) < card ?A" by (simp add: cardA cardB)
  then have "\<not> inj_on sha256 ?A" by (rule pigeonhole)
  then show ?thesis by (auto simp: inj_on_def)
qed

section \<open>\<open>decryptWhatsAppMedia\<close>: what a run does\<close>

lemma buffer_slice_nonneg:
  assumes "0 \<le> a" and "a \<le> b" and "nat b \<le> length xs"
  shows "buffer_slice xs a b = take (nat b - nat a) (drop (nat a) xs)"
  using assms by (simp add: buffer_slice_def clamp_index_def Let_def min_def)

lemma clamp_index_trailer: "clamp_index n (- 10) = n - 10"
  by (simp add: clamp_index_def)

lemma clamp_index_0: "clamp_index n 0 = 0"
  by (simp add: clamp_index_def)

lemma buffer_slice_trailer:
  "buffer_slice xs 0 (- 10) = take (length xs - 10) xs"
  by (simp add: buffer_slice_def clamp_index_trailer clamp_index_0 Let_def)

lemma buffer_slice_from_trailer:
  "buffer_slice_from xs (- 10) = drop (length xs - 10) xs"
  by (simp add: buffer_slice_from_def clamp_index_trailer)

lemma length_expanded_key: "length (expanded_key k) = 112"
  by (simp add: expanded_key_def length_hkdf_sha256)

lemma length_iv_of: "length (iv_of k) = 16"
  by (simp add: iv_of_def length_expanded_key)

lemma length_cipher_key_of: "length (cipher_key_of k) = 32"
  by (simp add: cipher_key_of_def length_expanded_key)

lemma length_computed_mac: "length (computed_mac k c) = 10"
  by (simp add: computed_mac_def length_hmac_sha256)

lemma key_slices:
  "buffer_slice (expanded_key k) 0 16 = iv_of k"
  "buffer_slice (expanded_key k) 16 48 = cipher_key_of k"
  "buffer_slice (expanded_key k) 48 80 = mac_key_of k"
  by (simp_all add: buffer_slice_nonneg length_expanded_key iv_of_def cipher_key_of_def
      mac_key_of_def)

lemma hkdfSync_program:
  "hkdfSync (Buffer (base64_decode k)) (Buffer []) (ascii ''WhatsApp Media Keys'') 112
   = ArrayBuffer (expanded_key k)"
  by (simp add: hkdfSync_def expanded_key_def)

lemma hmac_update_ArrayBuffer: "hmac_update h (ArrayBuffer b) = Inl ERR_INVALID_ARG_TYPE"
  by (simp add: hmac_update_def)

lemma hmac_update_Buffer:
  "hmac_update h (Buffer b) = Inr (h\<lparr>hmac_data := hmac_data h @ b\<rparr>)"
  by (simp add: hmac_update_def)

text \<open>
  \<open>expandedKey\<close> is the \<open>ArrayBuffer\<close> that \<open>hkdfSync\<close> returns, so \<open>iv\<close>, its slice, is
  an \<open>ArrayBuffer\<close>, and \<open>update(iv)\<close> throws: every run ends there, before a MAC is
  computed, whatever the key and the payload, and the \<open>catch\<close> block rethrows the type
  error.
\<close>

lemma decrypt_body_ArrayBuffer:
  "decrypt_body (ArrayBuffer b) p = ([CreateHmac], Inl ERR_INVALID_ARG_TYPE)"
  by (simp add: decrypt_body_def Let_def hmac_update_ArrayBuffer)

lemma decrypt_try_type_error:
  "decrypt_try k p = ([HkdfSync, CreateHmac], Inl ERR_INVALID_ARG_TYPE)"
  by (simp add: decrypt_try_def Let_def hkdfSync_program decrypt_body_ArrayBuffer)

lemma decrypt_type_error:
  "decryptWhatsAppMedia k p = Inl (Erro_na_descriptografia ERR_INVALID_ARG_TYPE)"
  by (simp add: decryptWhatsAppMedia_def rethrow_def decrypt_try_type_error)

text \<open>
  The same statements run on an \<open>expandedKey\<close> held in a \<open>Buffer\<close> (what
  \<open>Buffer.from(expandedKey)\<close> would give) go three ways: the trailer is shorter than the
  10 bytes of the computed MAC and the comparison throws; the MACs differ and the program
  throws its own error; the MACs are equal and the decipher decides. They undo the
  encryptor, for a key of any length, reject a flipped MAC bit before the decipher is
  created, and end in a success or in an error of the taxonomy.
\<close>

lemma decrypt_body_Buffer:
  "decrypt_body (Buffer b) p =
     (let iv = buffer_slice b 0 16;
          cipherKey = buffer_slice b 16 48;
          macKey = buffer_slice b 48 80;
          encryptedMedia = take (length p - 10) p;
          receivedMac = drop (length p - 10) p;
          computedMac = take 10 (hmac_sha256 macKey (iv @ encryptedMedia))
      in if length receivedMac \<noteq> 10
         then ([CreateHmac, TimingSafeEqual], Inl ERR_CRYPTO_TIMING_SAFE_EQUAL_LENGTH)
         else if receivedMac \<noteq> computedMac
         then ([CreateHmac, TimingSafeEqual], Inl Falha_MAC_invalido)
         else ([CreateHmac, TimingSafeEqual, CreateDecipheriv],
               createDecipheriv_update_final (Buffer cipherKey) (Buffer iv) (Buffer encryptedMedia)))"
  by (simp add: decrypt_body_def Let_def hmac_update_Buffer hmac_digest_def createHmac_def
      timingSafeEqual_def buffer_slice_trailer buffer_slice_from_trailer buffer_slice_0
      length_hmac_sha256)

lemma decrypt_body_Buffer_cases:
  "decrypt_body (Buffer (expanded_key k)) p =
     (if length p < 10
      then ([CreateHmac, TimingSafeEqual], Inl ERR_CRYPTO_TIMING_SAFE_EQUAL_LENGTH)
      else if drop (length p - 10) p \<noteq> computed_mac k (take (length p - 10) p)
      then ([CreateHmac, TimingSafeEqual], Inl Falha_MAC_invalido)
      else ([CreateHmac, TimingSafeEqual, CreateDecipheriv],
            decipher_aes_256_cbc (cipher_key_of k) (iv_of k) (take (length p - 10) p)))"
proof -
  have len: "length (drop (length p - 10) p) \<noteq> 10 \<longleftrightarrow> length p < 10" by auto
  show ?thesis
    unfolding decrypt_body_Buffer Let_def key_slices computed_mac_def [symmetric] len
    by (simp add: createDecipheriv_update_final_def length_cipher_key_of length_iv_of)
qed

lemma decipher_derived_outcomes:
  "decipher_aes_256_cbc (cipher_key_of k) (iv_of k) data = Inl Wrong_final_block_length
   \<or> decipher_aes_256_cbc (cipher_key_of k) (iv_of k) data = Inl Bad_decrypt
   \<or> (\<exists>d. decipher_aes_256_cbc (cipher_key_of k) (iv_of k) data = Inr d)"
  by (rule decipher_outcomes [OF length_cipher_key_of length_iv_of])

lemma decrypt_body_outcomes:
  "snd (decrypt_body (Buffer (expanded_key k)) p) = Inl ERR_CRYPTO_TIMING_SAFE_EQUAL_LENGTH
   \<or> snd (decrypt_body (Buffer (expanded_key k)) p) = Inl Falha_MAC_invalido
   \<or> snd (decrypt_body (Buffer (expanded_key k)) p) = Inl Wrong_final_block_length
   \<or> snd (decrypt_body (Buffer (expanded_key k)) p) = Inl Bad_decrypt
   \<or> (\<exists>d. snd (decrypt_body (Buffer (expanded_key k)) p) = Inr d)"
  using decipher_derived_outcomes [of k "take (length p - 10) p"]
  by (auto simp: decrypt_body_Buffer_cases)

lemma decrypt_body_first_call: "hd (fst (decrypt_body ek p)) = CreateHmac"
  by (cases ek) (simp_all add: decrypt_body_ArrayBuffer decrypt_body_Buffer Let_def)

lemma encrypt_shape:
  "encryptWhatsAppMedia (base64_decode k) m =
     cbc_encrypt_blocks (key_expansion (cipher_key_of k)) (iv_of k) (chunks 16 (pkcs7_pad m))
     @ computed_mac k
         (cbc_encrypt_blocks (key_expansion (cipher_key_of k)) (iv_of k) (chunks 16 (pkcs7_pad m)))"
  by (simp add: encryptWhatsAppMedia_def Let_def expanded_key_def [symmetric]
      iv_of_def [symmetric] cipher_key_of_def [symmetric] mac_key_of_def [symmetric]
      computed_mac_def [symmetric])

lemma decrypt_body_encrypt:
  "decrypt_body (Buffer (expanded_key k)) (encryptWhatsAppMedia (base64_decode k) m)
   = ([CreateHmac, TimingSafeEqual, CreateDecipheriv], Inr m)"
proof -
  let ?c = "cbc_encrypt_blocks (key_expansion (cipher_key_of k)) (iv_of k) (chunks 16 (pkcs7_pad m))"
  let ?p = "?c @ computed_mac k ?c"
  have tk: "take (length ?p - 10) ?p = ?c" and dr: "drop (length ?p - 10) ?p = computed_mac k ?c"
    and len: "\<not> length ?p < 10"
    by (simp_all add: length_computed_mac)
  have "decrypt_body (Buffer (expanded_key k)) ?p = ([CreateHmac, TimingSafeEqual, CreateDecipheriv],
      decipher_aes_256_cbc (cipher_key_of k) (iv_of k) ?c)"
    by (subst decrypt_body_Buffer_cases) (simp only: tk dr len if_False simp_thms)
  then show ?thesis
    by (simp only: encrypt_shape decipher_encrypt [OF length_cipher_key_of length_iv_of])
qed

lemma decrypt_body_encrypt_any_key:
  "decrypt_body (Buffer (expanded_key (base64_encode key))) (encryptWhatsAppMedia key m)
   = ([CreateHmac, TimingSafeEqual, CreateDecipheriv], Inr m)"
  using decrypt_body_encrypt [of "base64_encode key" m]
  by (simp add: base64_decode_encode)

lemma bit_flip_changes: "j < 8 \<Longrightarrow> (x::byte) XOR push_bit j 1 \<noteq> x"
proof
  assume j: "j < 8" and "x XOR push_bit j 1 = x"
  then have "x XOR (x XOR push_bit j 1) = x XOR x" by simp
  then have z: "(push_bit j 1 :: byte) = 0" by (simp add: xor.assoc [symmetric])
  have "bit (push_bit j 1 :: byte) j" using j by (simp add: bit_exp_iff possible_bit_word)
  with z j show False by simp
qed

lemma flip_mac_bit_parts:
  assumes "10 \<le> length p" and "i < 10"
  shows "length (flip_mac_bit p i j) = length p"
    and "take (length p - 10) (flip_mac_bit p i j) = take (length p - 10) p"
    and "drop (length p - 10) (flip_mac_bit p i j)
         = (drop (length p - 10) p)[i := drop (length p - 10) p ! i XOR push_bit j 1]"
  using assms by (simp_all add: flip_mac_bit_def drop_update_swap)

lemma flipped_mac_differs:
  assumes "10 \<le> length p" and "i < 10" and "j < 8"
  shows "drop (length p - 10) (flip_mac_bit p i j) \<noteq> drop (length p - 10) p"
proof
  let ?m = "drop (length p - 10) p"
  assume "drop (length p - 10) (flip_mac_bit p i j) = ?m"
  then have "?m[i := ?m ! i XOR push_bit j 1] = ?m"
    using flip_mac_bit_parts(3) [OF assms(1,2)] by simp
  then have "?m[i := ?m ! i XOR push_bit j 1] ! i = ?m ! i" by simp
  moreover have "i < length ?m" using assms(1,2) by simp
  ultimately have "?m ! i XOR push_bit j 1 = ?m ! i" by simp
  with bit_flip_changes [OF assms(3)] show False by blast
qed

lemma decrypt_body_flipped:
  assumes "snd (decrypt_body (Buffer (expanded_key k)) p) = Inr m" and "i < 10" and "j < 8"
  shows "decrypt_body (Buffer (expanded_key k)) (flip_mac_bit p i j)
           = ([CreateHmac, TimingSafeEqual], Inl Falha_MAC_invalido)"
proof -
  let ?p' = "flip_mac_bit p i j"
  from assms(1) have len: "10 \<le> length p"
    and mac: "drop (length p - 10) p = computed_mac k (take (length p - 10) p)"
    by (auto simp: decrypt_body_Buffer_cases split: if_splits)
  have "drop (length ?p' - 10) ?p' \<noteq> computed_mac k (take (length ?p' - 10) ?p')"
    using flipped_mac_differs [OF len assms(2,3)] mac
    by (simp add: flip_mac_bit_parts [OF len assms(2)])
  moreover have "\<not> length ?p' < 10"
    using len by (simp add: flip_mac_bit_parts [OF len assms(2)])
  ultimately show ?thesis
    by (simp add: decrypt_body_Buffer_cases)
qed

lemma decrypt_body_encrypt_flipped:
  assumes "i < 10" and "j < 8"
  shows "decrypt_body (Buffer (expanded_key (base64_encode key)))
           (flip_mac_bit (encryptWhatsAppMedia key m) i j)
         = ([CreateHmac, TimingSafeEqual], Inl Falha_MAC_invalido)"
  by (rule decrypt_body_flipped [OF _ assms, of _ _ m]) (simp add: decrypt_body_encrypt_any_key)

lemma decipher_after_equal_macs:
  "(CreateDecipheriv \<in> set (fst (decrypt_body (Buffer (expanded_key k)) p)))
     = (10 \<le> length p \<and> drop (length p - 10) p = computed_mac k (take (length p - 10) p))"
  by (simp add: decrypt_body_Buffer_cases)

lemma misaligned_length:
  assumes "\<not> validateEncryptedData p" and "\<not> length p < 10"
  shows "length (take (length p - 10) p) mod 16 \<noteq> 0"
  using assms by (auto simp: validateEncryptedData_def Let_def split: if_splits)

lemma decrypt_body_malformed:
  assumes "\<not> validateEncryptedData p"
  shows "\<exists>e. snd (decrypt_body ek p) = Inl e"
proof (cases ek)
  case (ArrayBuffer b)
  then show ?thesis by (simp add: decrypt_body_ArrayBuffer)
next
  case (Buffer b)
  show ?thesis
  proof (cases "length p < 10")
    case True
    then show ?thesis unfolding Buffer by (simp add: decrypt_body_Buffer Let_def)
  next
    case False
    from misaligned_length [OF assms False]
    have "\<exists>e. createDecipheriv_update_final (Buffer (buffer_slice b 16 48))
                 (Buffer (buffer_slice b 0 16)) (Buffer (take (length p - 10) p)) = Inl e"
      by (intro createDecipheriv_misaligned) simp
    then show ?thesis unfolding Buffer by (auto simp add: decrypt_body_Buffer Let_def)
  qed
qed

lemma decrypt_body_Buffer_malformed:
  assumes "\<not> validateEncryptedData p"
  shows "snd (decrypt_body (Buffer (expanded_key k)) p) =
           (if length p < 10 then Inl ERR_CRYPTO_TIMING_SAFE_EQUAL_LENGTH
            else if drop (length p - 10) p \<noteq> computed_mac k (take (length p - 10) p)
            then Inl Falha_MAC_invalido
            else Inl Wrong_final_block_length)"
proof (cases "length p < 10")
  case True
  then show ?thesis by (simp add: decrypt_body_Buffer_cases)
next
  case False
  from misaligned_length [OF assms False]
  have "decipher_aes_256_cbc (cipher_key_of k) (iv_of k) (take (length p - 10) p)
      = Inl Wrong_final_block_length"
    by (intro decipher_misaligned length_cipher_key_of length_iv_of disjI2)
  then show ?thesis using False by (simp add: decrypt_body_Buffer_cases)
qed

lemma failed_with_rethrow:
  "failed_with (rethrow (Inl e)) kind = (failure_kind_of e = Some kind)"
  "failed_with (rethrow (Inr d)) kind = False"
  by (simp_all add: failed_with_def rethrow_def)

lemma rethrow_inj: "(rethrow r = rethrow r') = (r = r')"
  by (auto simp: rethrow_def split: sum.splits)

lemma createDecipheriv_no_length_error:
  "createDecipheriv_update_final key iv data \<noteq> Inl ERR_CRYPTO_TIMING_SAFE_EQUAL_LENGTH"
  by (simp add: createDecipheriv_update_final_def decipher_aes_256_cbc_def Let_def)

lemma decrypt_body_format_kind:
  assumes "10 \<le> length p"
  shows "failed_with (rethrow (snd (decrypt_body ek p))) InvalidPayloadFormat = False"
proof (cases ek)
  case (ArrayBuffer b)
  then show ?thesis by (simp add: decrypt_body_ArrayBuffer failed_with_rethrow)
next
  case (Buffer b)
  let ?r = "createDecipheriv_update_final (Buffer (buffer_slice b 16 48))
              (Buffer (buffer_slice b 0 16)) (Buffer (take (length p - 10) p))"
  have "failed_with (rethrow ?r) InvalidPayloadFormat = False"
    using createDecipheriv_no_length_error [of "Buffer (buffer_slice b 16 48)"
        "Buffer (buffer_slice b 0 16)" "Buffer (take (length p - 10) p)"]
    by (cases ?r; cases "projl ?r") (auto simp: failed_with_rethrow)
  then show ?thesis
    unfolding Buffer using assms
    by (simp add: decrypt_body_Buffer Let_def failed_with_rethrow)
qed

lemma short_key_string: "base64_encode (replicate 16 0) = ''AAAAAAAAAAAAAAAAAAAAAA==''"
  by code_simp

lemma short_key_decoded: "base64_decode ''AAAAAAAAAAAAAAAAAAAAAA=='' = replicate 16 0"
  using base64_decode_encode [of "replicate 16 0"] by (simp only: short_key_string)

section \<open>The round-trip law\<close>

text \<open>
  C1 does not hold of the code. For every key and every plaintext, the run of
  \<open>decryptWhatsAppMedia\<close> on the payload made by the encryptor (same HKDF derivation,
  AES-256-CBC with PKCS#7 padding, first 10 bytes of HMAC-SHA256 over
  \<open>iv || ciphertext\<close> as trailer) derives the keys, creates the HMAC and stops at
  \<open>update(iv)\<close> with the type error, which it rethrows; it does not return the plaintext.
  The statements after the derivation do return the plaintext when \<open>expandedKey\<close> is a
  \<open>Buffer\<close>.
\<close>

theorem roundtrip_stops_at_hmac_update:
  "decrypt_try (base64_encode key) (encryptWhatsAppMedia key m)
     = ([HkdfSync, CreateHmac], Inl ERR_INVALID_ARG_TYPE)
   \<and> decryptWhatsAppMedia (base64_encode key) (encryptWhatsAppMedia key m)
     = Inl (Erro_na_descriptografia ERR_INVALID_ARG_TYPE)
   \<and> decrypt_body (Buffer (expanded_key (base64_encode key))) (encryptWhatsAppMedia key m)
     = ([CreateHmac, TimingSafeEqual, CreateDecipheriv], Inr m)"
  by (intro conjI decrypt_try_type_error decrypt_type_error decrypt_body_encrypt_any_key)

section \<open>The MAC check\<close>

text \<open>
  C2 does not hold of the code. On the encryptor's payload with bit 5 of byte 3 of its
  trailer flipped, the run stops at \<open>update(iv)\<close> as every run does: it fails, but with
  the type error, not with the MAC error (\<open>MacMismatch\<close>); the MACs are never compared and
  no decipher is created. The statements after the derivation, when \<open>expandedKey\<close> is a
  \<open>Buffer\<close>, end after the comparison with the MAC error, before a decipher is created.
\<close>

theorem flipped_mac_stops_at_hmac_update:
  "decrypt_try (base64_encode key) (flip_mac_bit (encryptWhatsAppMedia key m) 3 5)
     = ([HkdfSync, CreateHmac], Inl ERR_INVALID_ARG_TYPE)
   \<and> decryptWhatsAppMedia (base64_encode key) (flip_mac_bit (encryptWhatsAppMedia key m) 3 5)
     = Inl (Erro_na_descriptografia ERR_INVALID_ARG_TYPE)
   \<and> failed_with
       (decryptWhatsAppMedia (base64_encode key) (flip_mac_bit (encryptWhatsAppMedia key m) 3 5))
       MacMismatch = False
   \<and> decrypt_body (Buffer (expanded_key (base64_encode key)))
       (flip_mac_bit (encryptWhatsAppMedia key m) 3 5)
     = ([CreateHmac, TimingSafeEqual], Inl Falha_MAC_invalido)"
proof -
  have "decrypt_body (Buffer (expanded_key (base64_encode key)))
       (flip_mac_bit (encryptWhatsAppMedia key m) 3 5)
     = ([CreateHmac, TimingSafeEqual], Inl Falha_MAC_invalido)"
    by (rule decrypt_body_encrypt_flipped) simp_all
  then show ?thesis
    by (simp add: decrypt_try_type_error decrypt_type_error failed_with_def)
qed

section \<open>The length of the key\<close>

text \<open>
  C3, as stated, fails: \<open>decryptWhatsAppMedia\<close> has no check of the key length. The
  string \<open>AAAAAAAAAAAAAAAAAAAAAA==\<close> decodes to 16 bytes and \<open>validateMediaKey\<close>
  rejects it, yet the first thing the run does is the key derivation on these 16 bytes,
  and its failure is not a key-length failure; on a payload encrypted under the 16 bytes,
  the statements after the derivation, with \<open>expandedKey\<close> in a \<open>Buffer\<close>, return the
  plaintext.
\<close>

theorem short_key_counterexample:
  "length (base64_decode ''AAAAAAAAAAAAAAAAAAAAAA=='') = 16
   \<and> validateMediaKey ''AAAAAAAAAAAAAAAAAAAAAA=='' = False
   \<and> hd (fst (decrypt_try ''AAAAAAAAAAAAAAAAAAAAAA==''
                 (encryptWhatsAppMedia (replicate 16 0) (ascii ''OggS'')))) = HkdfSync
   \<and> failed_with (decryptWhatsAppMedia ''AAAAAAAAAAAAAAAAAAAAAA==''
                    (encryptWhatsAppMedia (replicate 16 0) (ascii ''OggS''))) InvalidKeyLength = False
   \<and> decrypt_body (Buffer (expanded_key ''AAAAAAAAAAAAAAAAAAAAAA==''))
         (encryptWhatsAppMedia (replicate 16 0) (ascii ''OggS''))
       = ([CreateHmac, TimingSafeEqual, CreateDecipheriv], Inr (ascii ''OggS''))"
proof -
  have a: "length (base64_decode ''AAAAAAAAAAAAAAAAAAAAAA=='') = 16"
    by (simp add: short_key_decoded)
  then have b: "validateMediaKey ''AAAAAAAAAAAAAAAAAAAAAA=='' = False"
    by (simp add: validateMediaKey_def)
  have c: "decrypt_body (Buffer (expanded_key ''AAAAAAAAAAAAAAAAAAAAAA==''))
         (encryptWhatsAppMedia (replicate 16 0) (ascii ''OggS''))
       = ([CreateHmac, TimingSafeEqual, CreateDecipheriv], Inr (ascii ''OggS''))"
    using decrypt_body_encrypt_any_key [of "replicate 16 0" "ascii ''OggS''"]
    by (simp only: short_key_string)
  have d: "hd (fst (decrypt_try ''AAAAAAAAAAAAAAAAAAAAAA==''
                 (encryptWhatsAppMedia (replicate 16 0) (ascii ''OggS'')))) = HkdfSync"
    by (simp add: decrypt_try_def Let_def)
  have e: "failed_with (decryptWhatsAppMedia ''AAAAAAAAAAAAAAAAAAAAAA==''
                    (encryptWhatsAppMedia (replicate 16 0) (ascii ''OggS''))) InvalidKeyLength = False"
    by (simp add: decrypt_type_error failed_with_def)
  from a b d e c show ?thesis by (intro conjI)
qed

text \<open>
  C3, amended. \<open>decryptWhatsAppMedia\<close> does not check the length of the decoded key:
  for every key string, the first step of a run is the key derivation on the decoded
  bytes, of whatever length, and no run fails with a key-length failure; the statements
  after the derivation accept the keys derived from a key of any length (with
  \<open>expandedKey\<close> in a \<open>Buffer\<close>, they raise no key-length failure and decrypt what was
  encrypted under that key). The 32-byte rule is \<open>validateMediaKey\<close>'s, a separate
  function.
\<close>

theorem decrypt_has_no_key_length_check:
  "hd (fst (decrypt_try k p)) = HkdfSync
   \<and> failed_with (decryptWhatsAppMedia k p) InvalidKeyLength = False
   \<and> failed_with (rethrow (snd (decrypt_body (Buffer (expanded_key k)) p))) InvalidKeyLength = False
   \<and> decrypt_body (Buffer (expanded_key (base64_encode key))) (encryptWhatsAppMedia key m)
       = ([CreateHmac, TimingSafeEqual, CreateDecipheriv], Inr m)
   \<and> validateMediaKey (base64_encode key) = (length key = 32)"
proof -
  have a: "hd (fst (decrypt_try k p)) = HkdfSync"
    by (simp add: decrypt_try_def Let_def)
  have b: "failed_with (decryptWhatsAppMedia k p) InvalidKeyLength = False"
    by (simp add: decrypt_type_error failed_with_def)
  have c: "failed_with (rethrow (snd (decrypt_body (Buffer (expanded_key k)) p))) InvalidKeyLength
      = False"
    using decrypt_body_outcomes [of k p] by (auto simp: failed_with_rethrow)
  have d: "validateMediaKey (base64_encode key) = (length key = 32)"
    by (simp add: validateMediaKey_def base64_decode_encode)
  from a b c decrypt_body_encrypt_any_key [of key m] d show ?thesis by (intro conjI)
qed

section \<open>The format of the payload\<close>

text \<open>
  C4, as stated, fails: \<open>decryptWhatsAppMedia\<close> does not re-check the format. A payload
  of 27 zero bytes (10 + 17, not block-aligned) is rejected by \<open>validateEncryptedData\<close>;
  the run on it starts with the key derivation and the creation of the HMAC, as on a
  well-formed payload, and its failure is not a payload-format failure. Nor is it one when
  \<open>expandedKey\<close> is a \<open>Buffer\<close>: then the statements after the derivation fail with the MAC
  error or, should the trailer equal the computed MAC, with the decipher's wrong final
  block length.
\<close>

theorem misaligned_payload_counterexample:
  "validateEncryptedData (replicate 27 0) = False
   \<and> take 2 (fst (decrypt_try ''AAECAwQFBgcICQoLDA0ODxAREhMUFRYXGBkaGxwdHh8='' (replicate 27 0))) = [HkdfSync, CreateHmac]
   \<and> failed_with (decryptWhatsAppMedia ''AAECAwQFBgcICQoLDA0ODxAREhMUFRYXGBkaGxwdHh8='' (replicate 27 0)) InvalidPayloadFormat = False
   \<and> (snd (decrypt_body (Buffer (expanded_key ''AAECAwQFBgcICQoLDA0ODxAREhMUFRYXGBkaGxwdHh8='')) (replicate 27 0)) = Inl Falha_MAC_invalido
      \<or> snd (decrypt_body (Buffer (expanded_key ''AAECAwQFBgcICQoLDA0ODxAREhMUFRYXGBkaGxwdHh8='')) (replicate 27 0))
           = Inl Wrong_final_block_length)
   \<and> failed_with (rethrow (snd (decrypt_body (Buffer (expanded_key ''AAECAwQFBgcICQoLDA0ODxAREhMUFRYXGBkaGxwdHh8='')) (replicate 27 0))))
       InvalidPayloadFormat = False"
proof -
  have a: "validateEncryptedData (replicate 27 0) = False"
    by (simp add: validateEncryptedData_def)
  have b: "take 2 (fst (decrypt_try ''AAECAwQFBgcICQoLDA0ODxAREhMUFRYXGBkaGxwdHh8='' (replicate 27 0))) = [HkdfSync, CreateHmac]"
    by (simp add: decrypt_try_type_error)
  have c: "failed_with (decryptWhatsAppMedia ''AAECAwQFBgcICQoLDA0ODxAREhMUFRYXGBkaGxwdHh8='' (replicate 27 0)) InvalidPayloadFormat = False"
    by (simp add: decrypt_type_error failed_with_def)
  have d: "snd (decrypt_body (Buffer (expanded_key ''AAECAwQFBgcICQoLDA0ODxAREhMUFRYXGBkaGxwdHh8='')) (replicate 27 0)) = Inl Falha_MAC_invalido
      \<or> snd (decrypt_body (Buffer (expanded_key ''AAECAwQFBgcICQoLDA0ODxAREhMUFRYXGBkaGxwdHh8='')) (replicate 27 0))
           = Inl Wrong_final_block_length"
    using decrypt_body_Buffer_malformed [of "replicate 27 0" "''AAECAwQFBgcICQoLDA0ODxAREhMUFRYXGBkaGxwdHh8=''"] a by auto
  then have e: "failed_with (rethrow (snd (decrypt_body (Buffer (expanded_key ''AAECAwQFBgcICQoLDA0ODxAREhMUFRYXGBkaGxwdHh8='')) (replicate 27 0))))
       InvalidPayloadFormat = False"
    by (auto simp: failed_with_rethrow)
  from a b c d e show ?thesis by (intro conjI)
qed

text \<open>
  C4, amended. \<open>decryptWhatsAppMedia\<close> has no format check of its own. A payload that
  \<open>validateEncryptedData\<close> rejects is not decrypted: \<open>decryptWhatsAppMedia\<close> fails on it,
  and so do the statements after the key derivation whatever \<open>expandedKey\<close> holds. The run
  starts as on any payload, with the key derivation and the creation of the HMAC, and the
  statements after the derivation start with the latter. When the rejected payload has 10
  bytes or more, the failure is not a payload-format failure, neither that of
  \<open>decryptWhatsAppMedia\<close> nor that of the statements after the derivation, whatever
  \<open>expandedKey\<close> holds.
\<close>

theorem malformed_payload_fails:
  assumes "\<not> validateEncryptedData p"
  shows "(\<exists>e. decryptWhatsAppMedia k p = Inl e)
       \<and> (\<exists>e. snd (decrypt_body ek p) = Inl e)
       \<and> take 2 (fst (decrypt_try k p)) = [HkdfSync, CreateHmac]
       \<and> hd (fst (decrypt_body ek p)) = CreateHmac
       \<and> (10 \<le> length p \<longrightarrow>
            failed_with (decryptWhatsAppMedia k p) InvalidPayloadFormat = False
            \<and> failed_with (rethrow (snd (decrypt_body ek p))) InvalidPayloadFormat = False)"
proof -
  have run: "decryptWhatsAppMedia k p
      = rethrow (snd (decrypt_body
          (hkdfSync (Buffer (base64_decode k)) (Buffer []) (ascii ''WhatsApp Media Keys'') 112) p))"
    by (simp add: decryptWhatsAppMedia_def decrypt_try_def Let_def)
  from decrypt_body_malformed [OF assms] obtain e where
    "snd (decrypt_body
          (hkdfSync (Buffer (base64_decode k)) (Buffer []) (ascii ''WhatsApp Media Keys'') 112) p)
       = Inl e"
    by blast
  then have a: "\<exists>e. decryptWhatsAppMedia k p = Inl e"
    unfolding run by (simp add: rethrow_def)
  have b: "take 2 (fst (decrypt_try k p)) = [HkdfSync, CreateHmac]"
    by (simp add: decrypt_try_type_error)
  have c: "10 \<le> length p \<longrightarrow>
            failed_with (decryptWhatsAppMedia k p) InvalidPayloadFormat = False
            \<and> failed_with (rethrow (snd (decrypt_body ek p))) InvalidPayloadFormat = False"
    unfolding run by (simp add: decrypt_body_format_kind)
  from a decrypt_body_malformed [OF assms, of ek] b decrypt_body_first_call [of ek p] c
  show ?thesis by (intro conjI)
qed

theorem malformed_payload_fails_witness:
  "\<not> validateEncryptedData (replicate 27 0) \<and> 10 \<le> length (replicate 27 (0::byte))
   \<and> (\<exists>e. decryptWhatsAppMedia ''AAECAwQFBgcICQoLDA0ODxAREhMUFRYXGBkaGxwdHh8='' (replicate 27 0)
         = Inl e)
   \<and> (\<exists>e. snd (decrypt_body
                 (Buffer (expanded_key ''AAECAwQFBgcICQoLDA0ODxAREhMUFRYXGBkaGxwdHh8=''))
                 (replicate 27 0)) = Inl e)
   \<and> failed_with
         (decryptWhatsAppMedia ''AAECAwQFBgcICQoLDA0ODxAREhMUFRYXGBkaGxwdHh8='' (replicate 27 0))
         InvalidPayloadFormat = False
   \<and> failed_with
         (rethrow (snd (decrypt_body
                 (Buffer (expanded_key ''AAECAwQFBgcICQoLDA0ODxAREhMUFRYXGBkaGxwdHh8=''))
                 (replicate 27 0))))
         InvalidPayloadFormat = False"
proof -
  have h: "\<not> validateEncryptedData (replicate 27 0)"
    by (simp add: validateEncryptedData_def)
  have l: "10 \<le> length (replicate 27 (0::byte))" by simp
  from malformed_payload_fails [OF h, of "''AAECAwQFBgcICQoLDA0ODxAREhMUFRYXGBkaGxwdHh8=''"
      "Buffer (expanded_key ''AAECAwQFBgcICQoLDA0ODxAREhMUFRYXGBkaGxwdHh8='')"] h l
  show ?thesis by simp
qed

section \<open>Failures reach the caller\<close>

text \<open>
  C5 does not hold of the code. Every call of \<open>decryptWhatsAppMedia\<close> fails with the
  rethrown type error of \<open>update(iv)\<close>, which is of none of the four kinds of the
  taxonomy. The \<open>catch\<close> block itself loses nothing (different outcomes of the \<open>try\<close>
  block give different results), and with \<open>expandedKey\<close> in a \<open>Buffer\<close> the statements
  after the derivation end in a success or in an error of one of the kinds
  \<open>InvalidPayloadFormat\<close>, \<open>MacMismatch\<close> and \<open>DecryptionFailure\<close>, the MAC error being the
  one of kind \<open>MacMismatch\<close>.
\<close>

theorem type_error_has_no_failure_kind:
  "decryptWhatsAppMedia k p = Inl (Erro_na_descriptografia ERR_INVALID_ARG_TYPE)
   \<and> (\<forall>kind. failed_with (decryptWhatsAppMedia k p) kind = False)
   \<and> failure_kind_of ERR_INVALID_ARG_TYPE = None
   \<and> (snd (decrypt_body (Buffer (expanded_key k)) p)
         = Inl Falha_MAC_invalido) =
       failed_with (rethrow (snd (decrypt_body (Buffer (expanded_key k)) p))) MacMismatch
   \<and> ((\<exists>d. snd (decrypt_body (Buffer (expanded_key k)) p) = Inr d)
       \<or> failed_with (rethrow (snd (decrypt_body (Buffer (expanded_key k)) p))) InvalidPayloadFormat
       \<or> failed_with (rethrow (snd (decrypt_body (Buffer (expanded_key k)) p))) MacMismatch
       \<or> failed_with (rethrow (snd (decrypt_body (Buffer (expanded_key k)) p))) DecryptionFailure)
   \<and> (rethrow r = rethrow r') = (r = r')"
proof -
  have a: "decryptWhatsAppMedia k p = Inl (Erro_na_descriptografia ERR_INVALID_ARG_TYPE)"
    by (rule decrypt_type_error)
  then have b: "\<forall>kind. failed_with (decryptWhatsAppMedia k p) kind = False"
    by (simp add: failed_with_def)
  have c: "(snd (decrypt_body (Buffer (expanded_key k)) p) = Inl Falha_MAC_invalido) =
       failed_with (rethrow (snd (decrypt_body (Buffer (expanded_key k)) p))) MacMismatch"
    using decrypt_body_outcomes [of k p] by (auto simp: failed_with_rethrow)
  have d: "(\<exists>d. snd (decrypt_body (Buffer (expanded_key k)) p) = Inr d)
       \<or> failed_with (rethrow (snd (decrypt_body (Buffer (expanded_key k)) p))) InvalidPayloadFormat
       \<or> failed_with (rethrow (snd (decrypt_body (Buffer (expanded_key k)) p))) MacMismatch
       \<or> failed_with (rethrow (snd (decrypt_body (Buffer (expanded_key k)) p))) DecryptionFailure"
    using decrypt_body_outcomes [of k p] by (auto simp: failed_with_rethrow)
  from a b c d rethrow_inj [of r r'] show ?thesis by simp
qed

end
